theory Spec2Isabelle
  imports Main
begin

section \<open>Route declarations and flattened chains\<close>

text \<open>
  Modelled from the spec: the type \<^verbatim>\<open>ElementAnimation\<close> of \<^verbatim>\<open>animate-registry.js\<close>, which is
  not among the sources; a keyframes and options pair. The router only reads its
  \<^verbatim>\<open>keyframes\<close> and \<^verbatim>\<open>options\<close> and hands them to \<^verbatim>\<open>animateTo\<close>.
\<close>

datatype ElementAnimation = ElementAnimation (keyframes: string) (options: string)

text \<open>The \<^verbatim>\<open>{ show; hide }\<close> pair of a route (\<^verbatim>\<open>show\<close> is a keyword here).\<close>

datatype RouteAnimation =
  RouteAnimation (anim_show: ElementAnimation) (anim_hide: ElementAnimation)

text \<open>
  An \<^verbatim>\<open>action\<close> is an asynchronous function that yields nothing or a constructible
  element class. The class is represented by the tag name its instances carry; the
  function is taken to succeed and to yield the same result at every call.
\<close>

datatype Action = Action (yields: "string option")

text \<open>
  \<^verbatim>\<open>interface Route\<close>. An absent \<^verbatim>\<open>children\<close> is the empty list: \<^verbatim>\<open>parseRoutes\<close>
  treats both alike (\<^verbatim>\<open>!routes?.length\<close>).
\<close>

datatype Route = Route
  (path: string)
  (name: "string option")
  (component: "string option")
  (action: "Action option")
  (animation: "RouteAnimation option")
  (redirect: "string option")
  (children: "Route list")

text \<open>\<^verbatim>\<open>interface InternalRoute\<close>: one chain, the per-depth arrays held by value.\<close>

record InternalRoute =
  path :: "string list"
  name :: "string option"
  component :: "string option list"
  action :: "Action option list"
  animation :: "RouteAnimation option list"
  redirect :: "string option list"

text \<open>The default value of the parameter \<^verbatim>\<open>route\<close> of \<^verbatim>\<open>parseRoutes\<close>.\<close>

definition emptyRoute :: InternalRoute where
  "emptyRoute = \<lparr>path = [], name = None, component = [], action = [],
     animation = [], redirect = []\<rparr>"

text \<open>
  \<^verbatim>\<open>clone\<close> (\<^verbatim>\<open>deepClone\<close>) on a chain held by value: a structurally equal copy. What it
  does to object identity is modelled on the store further down.
\<close>

definition clone :: "InternalRoute \<Rightarrow> InternalRoute" where
  "clone v = v"

text \<open>The body of the \<^verbatim>\<open>forEach\<close> callback up to \<^verbatim>\<open>parsedRoutes.push\<close>.\<close>

definition pushRoute :: "Route \<Rightarrow> InternalRoute \<Rightarrow> InternalRoute" where
  "pushRoute r clonedRoute = clonedRoute
     \<lparr>name := Route.name r,
      path := InternalRoute.path clonedRoute @ [Route.path r],
      redirect := InternalRoute.redirect clonedRoute @ [Route.redirect r],
      component := InternalRoute.component clonedRoute @ [Route.component r],
      action := InternalRoute.action clonedRoute @ [Route.action r],
      animation := InternalRoute.animation clonedRoute @ [Route.animation r]\<rparr>"

lemma size_children: "size_list size (children r) < size r"
  by (cases r) simp

function parseRoutes :: "Route list \<Rightarrow> InternalRoute list \<Rightarrow> InternalRoute \<Rightarrow> InternalRoute list" where
  "parseRoutes [] parsedRoutes route = parsedRoutes"
| "parseRoutes (r # rs) parsedRoutes route =
     (let clonedRoute = pushRoute r (clone route);
          parsedRoutes' = parseRoutes (children r) (parsedRoutes @ [clonedRoute]) clonedRoute
      in parseRoutes rs parsedRoutes' route)"
  by pat_completeness auto
termination
  by (relation "measure (\<lambda>(rs, _, _). size_list size rs)")
     (auto simp: size_children less_Suc_eq trans_less_add1)

text \<open>\<^verbatim>\<open>Array.prototype.join\<close> on an array of strings.\<close>

fun join :: "string list \<Rightarrow> string \<Rightarrow> string" where
  "join [] sep = []"
| "join [x] sep = x"
| "join (x # y # ys) sep = x @ sep @ join (y # ys) sep"

text \<open>
  \<^verbatim>\<open>getMatchingRoute\<close>. \<^verbatim>\<open>URLPattern\<close> belongs to the platform: \<open>urlPatternTest pattern route\<close>
  stands for \<^verbatim>\<open>new URLPattern({pathname: pattern, baseURL}).test(route, baseURL)\<close>.
\<close>

definition getMatchingRoute ::
  "(string \<Rightarrow> string \<Rightarrow> bool) \<Rightarrow> InternalRoute list \<Rightarrow> string \<Rightarrow> InternalRoute option" where
  "getMatchingRoute urlPatternTest routes route =
     find (\<lambda>r. urlPatternTest (join (InternalRoute.path r) ''/'') route) routes"

section \<open>The declaration tree in pre-order\<close>

text \<open>
  The declared nodes in pre-order (parent before children, children in declared order),
  each with its depth and with the nodes from the root down to it.
\<close>

function declared :: "Route list \<Rightarrow> Route list \<Rightarrow> (nat \<times> Route list) list" where
  "declared anc [] = []"
| "declared anc (r # rs) =
     (length anc, anc @ [r]) # declared (anc @ [r]) (children r) @ declared anc rs"
  by pat_completeness auto
termination
  by (relation "measure (\<lambda>(_, rs). size_list size rs)")
     (auto simp: size_children less_Suc_eq trans_less_add1)

text \<open>The chain of a node, read off the nodes from the root down to it.\<close>

definition chainOf :: "Route list \<Rightarrow> InternalRoute" where
  "chainOf ns = \<lparr>path = map Route.path ns, name = Route.name (last ns),
     component = map Route.component ns, action = map Route.action ns,
     animation = map Route.animation ns, redirect = map Route.redirect ns\<rparr>"

text \<open>A chain with the entries of further nodes, each below the one before, put after it.\<close>

definition extendChain :: "InternalRoute \<Rightarrow> Route list \<Rightarrow> InternalRoute" where
  "extendChain c ns = \<lparr>path = InternalRoute.path c @ map Route.path ns,
     name = (if ns = [] then InternalRoute.name c else Route.name (last ns)),
     component = InternalRoute.component c @ map Route.component ns,
     action = InternalRoute.action c @ map Route.action ns,
     animation = InternalRoute.animation c @ map Route.animation ns,
     redirect = InternalRoute.redirect c @ map Route.redirect ns\<rparr>"

text \<open>The number of declared nodes, internal nodes and leaves alike.\<close>

function countNodes :: "Route list \<Rightarrow> nat" where
  "countNodes [] = 0"
| "countNodes (r # rs) = Suc (countNodes (children r)) + countNodes rs"
  by pat_completeness auto
termination
  by (relation "measure (size_list size)")
     (auto simp: size_children less_Suc_eq trans_less_add1)

subsection \<open>Flattening visits the tree in pre-order\<close>

text \<open>Induction over a forest: the children of the first tree, then the later trees.\<close>

lemma Route_list_induct [case_names Nil Cons]:
  assumes "P []" and "\<And>r rs. P (children r) \<Longrightarrow> P rs \<Longrightarrow> P (r # rs)"
  shows "P rs"
proof (induction rs rule: measure_induct_rule [where f = "size_list size"])
  case (less rs)
  show ?case
  proof (cases rs)
    case Nil
    then show ?thesis using assms(1) by simp
  next
    case (Cons r rs')
    have "size_list size (children r) < size_list size rs"
      using size_children [of r] Cons by simp
    moreover have "size_list size rs' < size_list size rs"
      using Cons by simp
    ultimately show ?thesis
      using less.IH assms(2) Cons by simp
  qed
qed

lemma declared_shift:
  "declared anc rs = map (\<lambda>(d, ns). (length anc + d, anc @ ns)) (declared [] rs)"
proof (induction rs arbitrary: anc rule: Route_list_induct)
  case Nil
  show ?case by simp
next
  case (Cons r rs)
  show ?case
    apply simp
    apply (subst Cons.IH(1) [of "anc @ [r]"])
    apply (subst Cons.IH(1) [of "[r]"])
    apply (subst Cons.IH(2) [of anc])
    apply (simp add: case_prod_unfold comp_def)
    done
qed

lemma length_declared: "length (declared anc rs) = countNodes rs"
  by (induction anc rs rule: declared.induct) simp_all

lemma declared_depth: "(d, ns) \<in> set (declared anc rs) \<Longrightarrow> length ns = Suc d"
  by (induction anc rs rule: declared.induct) auto

lemma pushRoute_extendChain: "pushRoute r (clone c) = extendChain c [r]"
  by (simp add: extendChain_def pushRoute_def clone_def)

lemma extendChain_extendChain: "extendChain (extendChain c [r]) ns = extendChain c (r # ns)"
  by (simp add: extendChain_def)

lemma extendChain_emptyRoute: "ns \<noteq> [] \<Longrightarrow> extendChain emptyRoute ns = chainOf ns"
  by (simp add: extendChain_def emptyRoute_def chainOf_def)

lemma parseRoutes_declared:
  "parseRoutes rs parsed route =
     parsed @ map (\<lambda>(d, ns). extendChain route ns) (declared [] rs)"
proof (induction rs arbitrary: parsed route rule: Route_list_induct)
  case Nil
  show ?case by simp
next
  case (Cons r rs)
  have sh: "declared [r] (children r) =
      map (\<lambda>(d, ns). (length [r] + d, [r] @ ns)) (declared [] (children r))"
    by (rule declared_shift)
  show ?case
    by (simp add: Let_def Cons.IH pushRoute_extendChain sh case_prod_unfold comp_def
          extendChain_extendChain)
qed

lemma parseRoutes_chainOf:
  "parseRoutes routes [] emptyRoute = map (\<lambda>(d, ns). chainOf ns) (declared [] routes)"
proof -
  have "map (\<lambda>(d, ns). extendChain emptyRoute ns) (declared [] routes) =
      map (\<lambda>(d, ns). chainOf ns) (declared [] routes)"
    by (rule map_cong) (auto dest!: declared_depth intro!: extendChain_emptyRoute)
  then show ?thesis by (simp add: parseRoutes_declared)
qed

text \<open>
  Claim C3. Flattening yields exactly one chain per declared node, internal nodes
  included, in pre-order: the table is the list of the chains of the declared nodes in
  pre-order, it has as many entries as there are declared nodes, and in the chain of a
  node at depth \<open>d\<close> each of the five per-depth arrays has length \<open>d + 1\<close>.
\<close>

theorem parseRoutes_one_chain_per_node_preorder:
  "parseRoutes routes [] emptyRoute = map (\<lambda>(d, ns). chainOf ns) (declared [] routes)
   \<and> length (parseRoutes routes [] emptyRoute) = countNodes routes
   \<and> map (\<lambda>c. (length (InternalRoute.path c), length (InternalRoute.component c),
               length (InternalRoute.action c), length (InternalRoute.animation c),
               length (InternalRoute.redirect c)))
         (parseRoutes routes [] emptyRoute)
       = map (\<lambda>(d, ns). (d + 1, d + 1, d + 1, d + 1, d + 1)) (declared [] routes)"
proof -
  have "map (\<lambda>c. (length (InternalRoute.path c), length (InternalRoute.component c),
               length (InternalRoute.action c), length (InternalRoute.animation c),
               length (InternalRoute.redirect c)))
         (map (\<lambda>(d, ns). chainOf ns) (declared [] routes))
       = map (\<lambda>(d, ns). (d + 1, d + 1, d + 1, d + 1, d + 1)) (declared [] routes)"
    unfolding map_map
    by (rule map_cong) (auto dest!: declared_depth simp: chainOf_def)
  then show ?thesis
    by (simp add: parseRoutes_chainOf length_declared)
qed

subsection \<open>Matching takes the first chain in table order\<close>

lemma join_single: "join [x] sep = x"
  by simp

lemma join_concat: "join (x # xs) sep = x @ concat (map (\<lambda>s. sep @ s) xs)"
  by (induction xs arbitrary: x) simp_all

lemma find_map_option:
  "find P (map f xs) = map_option f (find (\<lambda>x. P (f x)) xs)"
  by (induction xs) simp_all

lemma parseRoutes_first_child:
  "children r = k # ks \<Longrightarrow>
     \<exists>hs. parseRoutes (r # rs) [] emptyRoute = chainOf [r] # chainOf [r, k] # hs"
  by (cases r) (simp add: parseRoutes_chainOf)

text \<open>
  Claim C5. \<^verbatim>\<open>getMatchingRoute\<close> returns the first chain of the table, in its stored
  order, whose joined pattern matches the path, and \<open>None\<close> (\<^verbatim>\<open>undefined\<close>, no error)
  exactly when no pattern matches. The pattern tested for a chain is its path segments
  with \<^verbatim>\<open>/\<close> between them: \<open>join\<close> puts the separator before every segment but the
  first, so over a table made by \<open>parseRoutes\<close> the match is the first declared node, in
  pre-order, for which the paths of the nodes from the root down to it, joined by
  \<^verbatim>\<open>/\<close>, match. Declaration order wins over specificity: a first declared root whose
  pattern matches the path is the match whatever is declared after it, as with
  \<^verbatim>\<open>[{path:'*'}, {path:'users'}]\<close> and \<^verbatim>\<open>/users\<close>; and when the first root does not
  match but its pattern followed by \<^verbatim>\<open>/\<close> and its first child's pattern does, that child
  is the match.
\<close>

theorem getMatchingRoute_first_in_table_order:
  "(getMatchingRoute t routes p = Some c \<longleftrightarrow>
      (\<exists>i<length routes. c = routes ! i
         \<and> t (join (InternalRoute.path (routes ! i)) ''/'') p
         \<and> (\<forall>j<i. \<not> t (join (InternalRoute.path (routes ! j)) ''/'') p)))
   \<and> (getMatchingRoute t routes p = None \<longleftrightarrow>
      (\<forall>c\<in>set routes. \<not> t (join (InternalRoute.path c) ''/'') p))
   \<and> (t (Route.path r) p \<longrightarrow>
      getMatchingRoute t (parseRoutes (r # rs) [] emptyRoute) p = Some (chainOf [r]))
   \<and> join [] sep = [] \<and> join (x # xs) sep = x @ concat (map (\<lambda>s. sep @ s) xs)
   \<and> getMatchingRoute t (parseRoutes decls [] emptyRoute) p =
       map_option (\<lambda>(d, ns). chainOf ns)
         (find (\<lambda>(d, ns). t (Route.path (hd ns)
                    @ concat (map (\<lambda>n. ''/'' @ Route.path n) (tl ns))) p)
            (declared [] decls))
   \<and> (children r = k # ks \<and> \<not> t (Route.path r) p
        \<and> t (Route.path r @ ''/'' @ Route.path k) p \<longrightarrow>
      getMatchingRoute t (parseRoutes (r # rs) [] emptyRoute) p = Some (chainOf [r, k]))"
proof (intro conjI)
  show "getMatchingRoute t routes p = Some c \<longleftrightarrow>
      (\<exists>i<length routes. c = routes ! i
         \<and> t (join (InternalRoute.path (routes ! i)) ''/'') p
         \<and> (\<forall>j<i. \<not> t (join (InternalRoute.path (routes ! j)) ''/'') p))"
    unfolding getMatchingRoute_def find_Some_iff by blast
  show "getMatchingRoute t routes p = None \<longleftrightarrow>
      (\<forall>c\<in>set routes. \<not> t (join (InternalRoute.path c) ''/'') p)"
    unfolding getMatchingRoute_def find_None_iff by blast
  show "t (Route.path r) p \<longrightarrow>
      getMatchingRoute t (parseRoutes (r # rs) [] emptyRoute) p = Some (chainOf [r])"
    by (simp add: parseRoutes_chainOf getMatchingRoute_def chainOf_def)
  show "join [] sep = []" by simp
  show "join (x # xs) sep = x @ concat (map (\<lambda>s. sep @ s) xs)" by (rule join_concat)
  show "getMatchingRoute t (parseRoutes decls [] emptyRoute) p =
       map_option (\<lambda>(d, ns). chainOf ns)
         (find (\<lambda>(d, ns). t (Route.path (hd ns)
                    @ concat (map (\<lambda>n. ''/'' @ Route.path n) (tl ns))) p)
            (declared [] decls))"
  proof -
    have pat: "join (InternalRoute.path (chainOf ns)) ''/''
        = Route.path (hd ns) @ concat (map (\<lambda>n. ''/'' @ Route.path n) (tl ns))"
      if "ns \<noteq> []" for ns
      using that by (cases ns) (simp_all add: chainOf_def join_concat comp_def)
    have ne: "ns \<noteq> []" if "(d, ns) \<in> set (declared [] decls)" for d ns
      using declared_depth [OF that] by auto
    have "find (\<lambda>r. t (join (InternalRoute.path r) ''/'') p)
            (map (\<lambda>(d, ns). chainOf ns) (declared [] decls))
        = map_option (\<lambda>(d, ns). chainOf ns)
            (find (\<lambda>x. t (join (InternalRoute.path ((\<lambda>(d, ns). chainOf ns) x)) ''/'') p)
               (declared [] decls))"
      by (rule find_map_option)
    also have "find (\<lambda>x. t (join (InternalRoute.path ((\<lambda>(d, ns). chainOf ns) x)) ''/'') p)
               (declared [] decls)
        = find (\<lambda>(d, ns). t (Route.path (hd ns)
                    @ concat (map (\<lambda>n. ''/'' @ Route.path n) (tl ns))) p)
            (declared [] decls)"
      by (rule find_cong) (auto simp: pat dest: ne)
    finally show ?thesis
      by (simp add: getMatchingRoute_def parseRoutes_chainOf)
  qed
  show "children r = k # ks \<and> \<not> t (Route.path r) p
        \<and> t (Route.path r @ ''/'' @ Route.path k) p \<longrightarrow>
      getMatchingRoute t (parseRoutes (r # rs) [] emptyRoute) p = Some (chainOf [r, k])"
  proof
    assume a: "children r = k # ks \<and> \<not> t (Route.path r) p
        \<and> t (Route.path r @ ''/'' @ Route.path k) p"
    then obtain hs where "parseRoutes (r # rs) [] emptyRoute = chainOf [r] # chainOf [r, k] # hs"
      using parseRoutes_first_child by blast
    then show "getMatchingRoute t (parseRoutes (r # rs) [] emptyRoute) p = Some (chainOf [r, k])"
      using a by (simp add: getMatchingRoute_def chainOf_def)
  qed
qed

theorem getMatchingRoute_first_in_table_order_witness:
  "getMatchingRoute (\<lambda>pat p. pat = ''*'' \<or> p = ''/'' @ pat)
     (parseRoutes [Route ''*'' None None None None None [],
                   Route ''users'' None None None None None []] [] emptyRoute) ''/users''
   = Some (chainOf [Route ''*'' None None None None None []])
   \<and> getMatchingRoute (\<lambda>pat p. pat = ''*'' \<or> p = ''/'' @ pat)
     (parseRoutes [Route ''users'' None None None None None []] [] emptyRoute) ''/home''
   = None
   \<and> join [''users'', ''profile'', ''edit''] ''/'' = ''users/profile/edit''
   \<and> getMatchingRoute (\<lambda>pat p. pat = ''*'' \<or> p = ''/'' @ pat)
     (parseRoutes [Route ''users'' None None None None None
                     [Route ''profile'' None None None None None []],
                   Route ''*'' None None None None None []] [] emptyRoute) ''/users/profile''
   = Some (chainOf [Route ''users'' None None None None None
                      [Route ''profile'' None None None None None []],
                    Route ''profile'' None None None None None []])"
proof -
  let ?t = "\<lambda>pat p. pat = ''*'' \<or> p = ''/'' @ pat"
  let ?star = "Route ''*'' None None None None None []"
  let ?users = "Route ''users'' None None None None None []"
  let ?profile = "Route ''profile'' None None None None None []"
  let ?nested = "Route ''users'' None None None None None [?profile]"
  have first: "getMatchingRoute ?t (parseRoutes [?star, ?users] [] emptyRoute) ''/users''
      = Some (chainOf [?star])"
    using getMatchingRoute_first_in_table_order [of ?t "[]" "''/users''" undefined ?star "[?users]"]
    by simp
  have none: "getMatchingRoute ?t (parseRoutes [?users] [] emptyRoute) ''/home'' = None"
    using getMatchingRoute_first_in_table_order [of ?t "parseRoutes [?users] [] emptyRoute" "''/home''" undefined ?star "[]"]
    by (simp add: pushRoute_def clone_def emptyRoute_def)
  have joined: "join [''users'', ''profile'', ''edit''] ''/'' = ''users/profile/edit''"
    using getMatchingRoute_first_in_table_order [of ?t "[]" "''/''" undefined ?star "[]" "''/''" "''users''"
        "[''profile'', ''edit'']"]
    by simp
  have nested: "getMatchingRoute ?t (parseRoutes [?nested, ?star] [] emptyRoute) ''/users/profile''
      = Some (chainOf [?nested, ?profile])"
    using getMatchingRoute_first_in_table_order [of ?t "[]" "''/users/profile''" undefined ?nested "[?star]" "''/''" "''x''" "[]"
        "[]" ?profile "[]"]
    by simp
  show ?thesis using first none joined nested by simp
qed

section \<open>Flattening on a store of arrays\<close>

text \<open>
  The values an array of a chain holds. Strings, \<^verbatim>\<open>undefined\<close> and functions are not
  objects to \<^verbatim>\<open>deepClone\<close>; an animation pair is an object, copied field by field, and
  is held by value.
\<close>

datatype jsval = Undefined | Str string | Fn Action | Obj RouteAnimation

text \<open>
  The store: every array that has been created, in creation order. An array's identity
  is its index in the store.
\<close>

type_synonym store = "jsval list list"

text \<open>An \<^verbatim>\<open>InternalRoute\<close> object: its arrays by identity, its \<^verbatim>\<open>name\<close> by value.\<close>

record InternalRouteRef =
  pathRef :: nat
  nameVal :: "string option"
  componentRef :: nat
  actionRef :: nat
  animationRef :: nat
  redirectRef :: nat

text \<open>The arrays an \<^verbatim>\<open>InternalRoute\<close> object holds.\<close>

definition arraysOf :: "InternalRouteRef \<Rightarrow> nat list" where
  "arraysOf c = [pathRef c, componentRef c, actionRef c, animationRef c, redirectRef c]"

text \<open>\<^verbatim>\<open>deepClone\<close> on a value that is not an array.\<close>

fun deepCloneValue :: "jsval \<Rightarrow> jsval" where
  "deepCloneValue Undefined = Undefined"
| "deepCloneValue (Str s) = Str s"
| "deepCloneValue (Fn f) = Fn f"
| "deepCloneValue (Obj a) = Obj (RouteAnimation (anim_show a) (anim_hide a))"

text \<open>\<^verbatim>\<open>deepClone\<close> on an array: \<^verbatim>\<open>value.map(deepClone)\<close>, a new array.\<close>

definition deepCloneArray :: "nat \<Rightarrow> store \<Rightarrow> nat \<times> store" where
  "deepCloneArray a h = (length h, h @ [map deepCloneValue (if a < length h then h ! a else [])])"

text \<open>
  \<^verbatim>\<open>clone\<close> on an \<^verbatim>\<open>InternalRoute\<close> object: a new object whose properties are the deep
  clones of the old one's, in property order.
\<close>

definition cloneRef :: "InternalRouteRef \<Rightarrow> store \<Rightarrow> InternalRouteRef \<times> store" where
  "cloneRef v h =
     (let (p, h1) = deepCloneArray (pathRef v) h;
          (c, h2) = deepCloneArray (componentRef v) h1;
          (a, h3) = deepCloneArray (actionRef v) h2;
          (n, h4) = deepCloneArray (animationRef v) h3;
          (r, h5) = deepCloneArray (redirectRef v) h4
      in (\<lparr>pathRef = p, nameVal = nameVal v, componentRef = c, actionRef = a,
           animationRef = n, redirectRef = r\<rparr>, h5))"

text \<open>\<^verbatim>\<open>Array.prototype.push\<close>.\<close>

definition arrayPush :: "nat \<Rightarrow> jsval \<Rightarrow> store \<Rightarrow> store" where
  "arrayPush a v h = h[a := h ! a @ [v]]"

text \<open>An optional field of a route as a value: \<^verbatim>\<open>undefined\<close> when it is absent.\<close>

definition optVal :: "('a \<Rightarrow> jsval) \<Rightarrow> 'a option \<Rightarrow> jsval" where
  "optVal f x = (case x of None \<Rightarrow> Undefined | Some y \<Rightarrow> f y)"

text \<open>The body of the \<^verbatim>\<open>forEach\<close> callback up to \<^verbatim>\<open>parsedRoutes.push\<close>, on the store.\<close>

definition pushRouteRef :: "Route \<Rightarrow> InternalRouteRef \<Rightarrow> store \<Rightarrow> InternalRouteRef \<times> store" where
  "pushRouteRef r route h =
     (let (clonedRoute0, h1) = cloneRef route h;
          clonedRoute = clonedRoute0\<lparr>nameVal := Route.name r\<rparr>;
          h2 = arrayPush (pathRef clonedRoute) (Str (Route.path r)) h1;
          h3 = arrayPush (redirectRef clonedRoute) (optVal Str (Route.redirect r)) h2;
          h4 = arrayPush (componentRef clonedRoute) (optVal Str (Route.component r)) h3;
          h5 = arrayPush (actionRef clonedRoute) (optVal Fn (Route.action r)) h4;
          h6 = arrayPush (animationRef clonedRoute) (optVal Obj (Route.animation r)) h5
      in (clonedRoute, h6))"

function parseRoutesRef ::
  "Route list \<Rightarrow> InternalRouteRef list \<Rightarrow> InternalRouteRef \<Rightarrow> store
     \<Rightarrow> InternalRouteRef list \<times> store" where
  "parseRoutesRef [] parsedRoutes route h = (parsedRoutes, h)"
| "parseRoutesRef (r # rs) parsedRoutes route h =
     (let (clonedRoute, h1) = pushRouteRef r route h;
          (parsedRoutes', h2) =
             parseRoutesRef (children r) (parsedRoutes @ [clonedRoute]) clonedRoute h1
      in parseRoutesRef rs parsedRoutes' route h2)"
  by pat_completeness auto
termination
  by (relation "measure (\<lambda>(rs, _, _, _). size_list size rs)")
     (auto simp: size_children less_Suc_eq trans_less_add1)

text \<open>
  A call \<^verbatim>\<open>parseRoutes(routes)\<close>: the default parameters create an empty result array
  and a route object with five new empty arrays.
\<close>

definition parseRoutesStore :: "Route list \<Rightarrow> store \<Rightarrow> InternalRouteRef list \<times> store" where
  "parseRoutesStore routes h =
     parseRoutesRef routes []
       \<lparr>pathRef = length h, nameVal = None, componentRef = length h + 1,
        actionRef = length h + 2, animationRef = length h + 3, redirectRef = length h + 4\<rparr>
       (h @ [[], [], [], [], []])"

text \<open>Reading a chain off the store.\<close>

fun toStr :: "jsval \<Rightarrow> string" where
  "toStr (Str s) = s"
| "toStr _ = []"

fun toStrOpt :: "jsval \<Rightarrow> string option" where
  "toStrOpt (Str s) = Some s"
| "toStrOpt _ = None"

fun toAction :: "jsval \<Rightarrow> Action option" where
  "toAction (Fn f) = Some f"
| "toAction _ = None"

fun toAnimation :: "jsval \<Rightarrow> RouteAnimation option" where
  "toAnimation (Obj a) = Some a"
| "toAnimation _ = None"

definition readRoute :: "store \<Rightarrow> InternalRouteRef \<Rightarrow> InternalRoute" where
  "readRoute h c =
     \<lparr>path = map toStr (h ! pathRef c), name = nameVal c,
      component = map toStrOpt (h ! componentRef c),
      action = map toAction (h ! actionRef c),
      animation = map toAnimation (h ! animationRef c),
      redirect = map toStrOpt (h ! redirectRef c)\<rparr>"

text \<open>Every array of the object exists in the store.\<close>

definition allocated :: "InternalRouteRef \<Rightarrow> store \<Rightarrow> bool" where
  "allocated c h = list_all (\<lambda>a. a < length h) (arraysOf c)"

subsection \<open>Chains do not share arrays\<close>

lemma deepCloneValue_id [simp]: "deepCloneValue v = v"
  by (cases v) simp_all

lemma map_deepCloneValue [simp]: "map deepCloneValue xs = xs"
  by (simp add: map_idI)

lemma pushRouteRef_eq:
  assumes "allocated route h"
  shows "pushRouteRef r route h =
    (\<lparr>pathRef = length h, nameVal = Route.name r, componentRef = length h + 1,
      actionRef = length h + 2, animationRef = length h + 3, redirectRef = length h + 4\<rparr>,
     h @ [h ! pathRef route @ [Str (Route.path r)],
          h ! componentRef route @ [optVal Str (Route.component r)],
          h ! actionRef route @ [optVal Fn (Route.action r)],
          h ! animationRef route @ [optVal Obj (Route.animation r)],
          h ! redirectRef route @ [optVal Str (Route.redirect r)]])"
  using assms
  by (simp add: pushRouteRef_def cloneRef_def deepCloneArray_def arrayPush_def Let_def
      nth_append list_update_append allocated_def arraysOf_def)

lemma toStrOpt_optVal [simp]: "toStrOpt (optVal Str x) = x"
  by (cases x) (simp_all add: optVal_def)

lemma toAction_optVal [simp]: "toAction (optVal Fn x) = x"
  by (cases x) (simp_all add: optVal_def)

lemma toAnimation_optVal [simp]: "toAnimation (optVal Obj x) = x"
  by (cases x) (simp_all add: optVal_def)

lemma allocated_append: "allocated c h \<Longrightarrow> allocated c (h @ hs)"
  by (simp add: allocated_def arraysOf_def)

lemma readRoute_append: "allocated c h \<Longrightarrow> readRoute (h @ hs) c = readRoute h c"
  by (simp add: allocated_def arraysOf_def readRoute_def nth_append)

lemma pushRouteRef_props:
  assumes "allocated route h" and "pushRouteRef r route h = (c, h')"
  shows "\<exists>five. h' = h @ five \<and> length five = 5
     \<and> arraysOf c = [length h..<length h + 5]
     \<and> readRoute h' c = extendChain (readRoute h route) [r]"
proof -
  have ar: "[length h..<length h + 5] = [length h, length h + 1, length h + 2, length h + 3, length h + 4]"
    by (simp add: upt_rec)
  show ?thesis
    using assms(2) unfolding pushRouteRef_eq [OF assms(1)]
    using assms(1)
    by (auto simp: arraysOf_def ar readRoute_def extendChain_def nth_append allocated_def)
qed


lemma upt_split3:
  "[a..<a + (x + (y + z))] =
     [a..<a + x] @ [a + x..<a + (x + y)] @ [a + (x + y)..<a + (x + (y + z))]"
proof -
  have 1: "[a..<(a + x) + (y + z)] = [a..<a + x] @ [a + x..<(a + x) + (y + z)]"
    by (rule upt_add_eq_append) simp
  have 2: "[a + x..<(a + x + y) + z] = [a + x..<a + x + y] @ [a + x + y..<a + x + y + z]"
    by (rule upt_add_eq_append) simp
  show ?thesis using 1 2 by (simp add: add.assoc)
qed

lemma parseRoutesRef_fresh:
  assumes "allocated route h"
  shows "\<exists>new hs. parseRoutesRef rs parsed route h = (parsed @ new, h @ hs)
     \<and> concat (map arraysOf new) = [length h..<length h + length hs]
     \<and> map (readRoute (h @ hs)) new =
         map (\<lambda>(d, ns). extendChain (readRoute h route) ns) (declared [] rs)"
  using assms
proof (induction rs arbitrary: parsed route h rule: Route_list_induct)
  case Nil
  show ?case by simp
next
  case (Cons r rs)
  obtain c h1 where step: "pushRouteRef r route h = (c, h1)"
    by (cases "pushRouteRef r route h")
  from pushRouteRef_props [OF Cons.prems step]
  obtain five where five: "h1 = h @ five" "length five = 5"
    "arraysOf c = [length h..<length h + 5]"
    "readRoute h1 c = extendChain (readRoute h route) [r]"
    by blast
  have alloc_c: "allocated c h1"
    using five by (simp add: allocated_def list_all_iff)
  from Cons.IH(1) [OF alloc_c, of "parsed @ [c]"]
  obtain new1 hs1 where kids:
    "parseRoutesRef (children r) (parsed @ [c]) c h1 = ((parsed @ [c]) @ new1, h1 @ hs1)"
    "concat (map arraysOf new1) = [length h1..<length h1 + length hs1]"
    "map (readRoute (h1 @ hs1)) new1 =
       map (\<lambda>(d, ns). extendChain (readRoute h1 c) ns) (declared [] (children r))"
    by blast
  have alloc_route: "allocated route (h1 @ hs1)"
    using Cons.prems five(1) by (simp add: allocated_append)
  from Cons.IH(2) [OF alloc_route, of "(parsed @ [c]) @ new1"]
  obtain new2 hs2 where rest:
    "parseRoutesRef rs ((parsed @ [c]) @ new1) route (h1 @ hs1) =
       (((parsed @ [c]) @ new1) @ new2, (h1 @ hs1) @ hs2)"
    "concat (map arraysOf new2) = [length (h1 @ hs1)..<length (h1 @ hs1) + length hs2]"
    "map (readRoute ((h1 @ hs1) @ hs2)) new2 =
       map (\<lambda>(d, ns). extendChain (readRoute (h1 @ hs1) route) ns) (declared [] rs)"
    by blast
  let ?new = "c # new1 @ new2"
  let ?hs = "five @ hs1 @ hs2"
  have res: "parseRoutesRef (r # rs) parsed route h = (parsed @ ?new, h @ ?hs)"
    using step kids(1) rest(1) five(1) by simp
  have addrs: "concat (map arraysOf ?new) = [length h..<length h + length ?hs]"
  proof -
    have "[length h..<length h + length ?hs] =
        [length h..<length h + 5] @ [length h + 5..<length h + 5 + length hs1]
          @ [length h + 5 + length hs1..<length h + 5 + length hs1 + length hs2]"
      using five(2) upt_split3 [of "length h" 5 "length hs1" "length hs2"]
      by (simp add: add.assoc)
    then show ?thesis
      using five kids(2) rest(2) by (simp add: add.assoc)
  qed
  have alloc_new1: "allocated x (h1 @ hs1)" if "x \<in> set new1" for x
  proof -
    have "set (arraysOf x) \<subseteq> set (concat (map arraysOf new1))"
      using that by auto
    then show ?thesis
      unfolding kids(2) by (auto simp: allocated_def list_all_iff)
  qed
  have read_route: "readRoute (h @ five @ hs1) route = readRoute h route"
    using readRoute_append [OF Cons.prems, of "five @ hs1"] by simp
  have read_c: "readRoute (h @ ?hs) c = extendChain (readRoute h route) [r]"
    using readRoute_append [OF alloc_c, of "hs1 @ hs2"] five(1,4) by simp
  have read_new1: "map (readRoute (h @ ?hs)) new1 =
      map (\<lambda>(d, ns). extendChain (readRoute h route) (r # ns)) (declared [] (children r))"
  proof -
    have "map (readRoute (h @ ?hs)) new1 = map (readRoute (h1 @ hs1)) new1"
      using readRoute_append [OF alloc_new1, of _ hs2] five(1) by (intro map_cong) simp_all
    then show ?thesis
      by (simp add: kids(3) five(4) extendChain_extendChain)
  qed
  have read_new2: "map (readRoute (h @ ?hs)) new2 =
      map (\<lambda>(d, ns). extendChain (readRoute h route) ns) (declared [] rs)"
    using rest(3) five(1) by (simp add: read_route)
  have sh: "declared [r] (children r) =
      map (\<lambda>(d, ns). (length [r] + d, [r] @ ns)) (declared [] (children r))"
    by (rule declared_shift)
  have reads: "map (readRoute (h @ ?hs)) ?new =
      map (\<lambda>(d, ns). extendChain (readRoute h route) ns) (declared [] (r # rs))"
    using read_c read_new1 read_new2
    by (simp add: sh case_prod_unfold comp_def)
  show ?case
    using res addrs reads by blast
qed


lemma arraysOf_nth:
  "concat (map arraysOf cs) = [a..<b] \<Longrightarrow> i < length cs \<Longrightarrow>
     arraysOf (cs ! i) = [a + 5 * i..<a + 5 * i + 5]"
proof (induction cs arbitrary: a i)
  case Nil
  then show ?case by simp
next
  case (Cons c cs)
  have len: "length (arraysOf c) = 5"
    by (simp add: arraysOf_def)
  have eq: "arraysOf c @ concat (map arraysOf cs) = [a..<b]"
    using Cons.prems(1) by simp
  have "length (arraysOf c @ concat (map arraysOf cs)) = b - a"
    unfolding eq by simp
  then have ge: "a + 5 \<le> b"
    using len by simp
  have "take 5 (arraysOf c @ concat (map arraysOf cs)) = take 5 [a..<b]"
    unfolding eq ..
  then have hd: "arraysOf c = [a..<a + 5]"
    using len ge by (simp add: take_upt)
  have "drop 5 (arraysOf c @ concat (map arraysOf cs)) = drop 5 [a..<b]"
    unfolding eq ..
  then have tl: "concat (map arraysOf cs) = [a + 5..<b]"
    using len by (simp add: drop_upt)
  show ?case
  proof (cases i)
    case 0
    then show ?thesis using hd by simp
  next
    case (Suc k)
    then have "k < length cs" using Cons.prems(2) by simp
    from Cons.IH [OF tl this] show ?thesis
      using Suc by (simp add: add.assoc)
  qed
qed

lemma readRoute_update_other:
  "a \<notin> set (arraysOf c) \<Longrightarrow> readRoute (h[a := v]) c = readRoute h c"
  by (auto simp: readRoute_def arraysOf_def)

lemma parseRoutesStore_fresh:
  assumes "parseRoutesStore routes h0 = (table, h)"
  shows "\<exists>hs. h = (h0 @ [[], [], [], [], []]) @ hs
     \<and> concat (map arraysOf table) = [length h0 + 5..<length h0 + 5 + length hs]
     \<and> map (readRoute h) table = parseRoutes routes [] emptyRoute"
proof -
  let ?route = "\<lparr>pathRef = length h0, nameVal = None, componentRef = length h0 + 1,
        actionRef = length h0 + 2, animationRef = length h0 + 3, redirectRef = length h0 + 4\<rparr>"
  let ?h = "h0 @ [[], [], [], [], []]"
  have al: "allocated ?route ?h"
    by (simp add: allocated_def arraysOf_def)
  have rd: "readRoute ?h ?route = emptyRoute"
    by (simp add: readRoute_def emptyRoute_def nth_append)
  from parseRoutesRef_fresh [OF al, of routes "[]"]
  obtain new hs where r: "parseRoutesRef routes [] ?route ?h = ([] @ new, ?h @ hs)"
    "concat (map arraysOf new) = [length ?h..<length ?h + length hs]"
    "map (readRoute (?h @ hs)) new =
       map (\<lambda>(d, ns). extendChain (readRoute ?h ?route) ns) (declared [] routes)"
    by blast
  have "table = new" and "h = ?h @ hs"
    using assms r(1) unfolding parseRoutesStore_def by simp_all
  moreover have "map (readRoute (?h @ hs)) new = parseRoutes routes [] emptyRoute"
    unfolding r(3) rd by (simp add: parseRoutes_declared)
  moreover have "length ?h = length h0 + 5"
    by simp
  ultimately show ?thesis
    using r(2) by metis
qed


text \<open>
  Claim C4. Distinct chains of a flattened table never share an array: the arrays of
  all chains are pairwise different and all exist in the store, the store read through
  the table is the flattened table, and replacing the contents of any array of one
  chain (a push, a pop, an assignment to an index) leaves what every other chain holds
  unchanged.
\<close>

theorem parseRoutes_chains_share_no_array:
  assumes "parseRoutesStore routes h0 = (table, h)"
  shows "distinct (concat (map arraysOf table))
    \<and> list_all (\<lambda>a. a < length h) (concat (map arraysOf table))
    \<and> map (readRoute h) table = parseRoutes routes [] emptyRoute
    \<and> (\<forall>i j a v. i < length table \<and> j < length table \<and> i \<noteq> j
          \<and> a \<in> set (arraysOf (table ! i))
        \<longrightarrow> readRoute (h[a := v]) (table ! j) = readRoute h (table ! j))"
proof -
  from parseRoutesStore_fresh [OF assms]
  obtain hs where h: "h = (h0 @ [[], [], [], [], []]) @ hs"
    and addrs: "concat (map arraysOf table) = [length h0 + 5..<length h0 + 5 + length hs]"
    and reads: "map (readRoute h) table = parseRoutes routes [] emptyRoute"
    by blast
  have d: "distinct (concat (map arraysOf table))"
    unfolding addrs by simp
  have a: "list_all (\<lambda>a. a < length h) (concat (map arraysOf table))"
    unfolding addrs h by (simp add: list_all_iff)
  have frame: "readRoute (h[a := v]) (table ! j) = readRoute h (table ! j)"
    if "i < length table" "j < length table" "i \<noteq> j" "a \<in> set (arraysOf (table ! i))"
    for i j a v
  proof -
    have "a \<in> set [length h0 + 5 + 5 * i..<length h0 + 5 + 5 * i + 5]"
      using arraysOf_nth [OF addrs that(1)] that(4) by simp
    moreover have "arraysOf (table ! j) = [length h0 + 5 + 5 * j..<length h0 + 5 + 5 * j + 5]"
      by (rule arraysOf_nth [OF addrs that(2)])
    ultimately have "a \<notin> set (arraysOf (table ! j))"
      using that(3) by auto
    then show ?thesis
      by (rule readRoute_update_other)
  qed
  show ?thesis
    using d a reads frame by blast
qed

theorem parseRoutes_chains_share_no_array_witness:
  "(case parseRoutesStore
      [Route ''a'' None None None None None
        [Route ''b'' None None None None None [], Route ''c'' None None None None None []]] []
    of (table, h) \<Rightarrow>
      length table = 3
      \<and> InternalRoute.path (readRoute h (table ! 1)) = [''a'', ''b'']
      \<and> InternalRoute.path (readRoute (arrayPush (pathRef (table ! 1)) (Str ''x'') h) (table ! 1))
          = [''a'', ''b'', ''x'']
      \<and> readRoute (arrayPush (pathRef (table ! 1)) (Str ''x'') h) (table ! 2)
          = readRoute h (table ! 2)
      \<and> InternalRoute.path (readRoute (arrayPush (pathRef (table ! 1)) (Str ''x'') h) (table ! 2))
          = [''a'', ''c''])"
proof -
  let ?routes = "[Route ''a'' None None None None None
        [Route ''b'' None None None None None [], Route ''c'' None None None None None []]]"
  let ?table = "[\<lparr>pathRef = 5, nameVal = None, componentRef = 6, actionRef = 7,
      animationRef = 8, redirectRef = 9\<rparr>,
   \<lparr>pathRef = 10, nameVal = None, componentRef = 11, actionRef = 12,
      animationRef = 13, redirectRef = 14\<rparr>,
   \<lparr>pathRef = 15, nameVal = None, componentRef = 16, actionRef = 17,
      animationRef = 18, redirectRef = 19\<rparr>]"
  let ?h = "[[], [], [], [], [], [Str ''a''], [Undefined], [Undefined], [Undefined],
   [Undefined], [Str ''a'', Str ''b''], [Undefined, Undefined],
   [Undefined, Undefined], [Undefined, Undefined], [Undefined, Undefined],
   [Str ''a'', Str ''c''], [Undefined, Undefined], [Undefined, Undefined],
   [Undefined, Undefined], [Undefined, Undefined]]"
  have ev: "parseRoutesStore ?routes [] = (?table, ?h)"
    by (simp add: parseRoutesStore_def pushRouteRef_eq allocated_def arraysOf_def optVal_def)
  have frame: "readRoute (?h[10 := ?h ! 10 @ [Str ''x'']]) (?table ! 2) = readRoute ?h (?table ! 2)"
    using parseRoutes_chains_share_no_array [OF ev, THEN conjunct2, THEN conjunct2,
        THEN conjunct2, rule_format, of 1 2 10 "?h ! 10 @ [Str ''x'']"]
    by (simp add: arraysOf_def)
  have p1: "InternalRoute.path (readRoute ?h (?table ! 1)) = [''a'', ''b'']"
    by (simp add: readRoute_def)
  have p2: "InternalRoute.path (readRoute (?h[10 := ?h ! 10 @ [Str ''x'']]) (?table ! 1))
      = [''a'', ''b'', ''x'']"
    by (simp add: readRoute_def)
  have p3: "InternalRoute.path (readRoute ?h (?table ! 2)) = [''a'', ''c'']"
    by (simp add: readRoute_def)
  have t1: "pathRef (?table ! 1) = 10"
    by simp
  show ?thesis
    unfolding ev prod.case arrayPush_def t1 frame
    using p1 p2 p3 by simp
qed

section \<open>The mounted tree and its reconciliation\<close>

text \<open>
  A node of the document below the outlet. An element carries its identity, its
  \<^verbatim>\<open>tagName\<close>, the \<^verbatim>\<open>__routeAnimation\<close> attached to it and its child nodes; any other
  node (text, comment) has an identity only. Identities stand for object identity.
\<close>

datatype node =
    is_Element: Element (ident: nat) (tagName: string)
      (routeAnimation: "RouteAnimation option") (childNodes: "node list")
  | CharacterData (ident: nat)
where
  "tagName (CharacterData i) = []"
| "routeAnimation (CharacterData i) = None"
| "childNodes (CharacterData i) = []"

text \<open>
  Modelled from the spec: \<^verbatim>\<open>stopAnimations\<close> and \<^verbatim>\<open>animateTo\<close> of \<^verbatim>\<open>animate.js\<close>, which is not
  among the sources; the first cancels what is animating an element, the second plays an
  animation on it, and the promise of each resolves when that is done.

  An event is something the router does to the document or asks of the animation
  engine: stopping the animations of a node, playing an animation on a node, removing a
  node, inserting a node (the second identity) as the first child of another (the
  first). Each \<^verbatim>\<open>await\<close> inside the reconciliation completes before the next statement
  runs, so the order of a list of events is their order in time.
\<close>

datatype event =
    StopAnimations nat
  | AnimateTo nat ElementAnimation
  | Remove nat
  | InsertAfterBegin nat nat

text \<open>The same node with other child nodes.\<close>

fun setChildNodes :: "node \<Rightarrow> node list \<Rightarrow> node" where
  "setChildNodes (Element i t a cs) cs' = Element i t a cs'"
| "setChildNodes (CharacterData i) cs' = CharacterData i"

text \<open>\<^verbatim>\<open>removeRouteElement\<close>: the exit animation if there is one, then \<^verbatim>\<open>el.remove()\<close>.\<close>

definition removeRouteElement :: "node \<Rightarrow> event list" where
  "removeRouteElement el =
     (case routeAnimation el of
        Some anim \<Rightarrow> [StopAnimations (ident el), AnimateTo (ident el) (anim_hide anim)]
      | None \<Rightarrow> [])
     @ [Remove (ident el)]"

lemma size_childNodes: "size_list size (childNodes n) \<le> size n"
  by (cases n) simp_all

text \<open>
  \<^verbatim>\<open>reversedRouteNodeRemoval\<close>. The \<^verbatim>\<open>while (node.firstChild)\<close> loop is \<open>removeChildrenLoop\<close>
  on the child nodes that are left: each round tears down the first child's own
  children, removes that child, and goes on with the rest. When it returns the node
  has no child nodes.
\<close>

function reversedRouteNodeRemoval :: "node \<Rightarrow> bool \<Rightarrow> event list"
  and removeChildrenLoop :: "node list \<Rightarrow> event list" where
  "reversedRouteNodeRemoval node removeParent =
     removeChildrenLoop (childNodes node)
     @ (if removeParent then removeRouteElement node else [])"
| "removeChildrenLoop [] = []"
| "removeChildrenLoop (child # rest) =
     reversedRouteNodeRemoval child False @ removeRouteElement child @ removeChildrenLoop rest"
  by pat_completeness auto
termination
proof (relation "measure (\<lambda>x. case x of Inl (n, _) \<Rightarrow> 2 * size n + 1
                                        | Inr ns \<Rightarrow> 2 * size_list size ns)", goal_cases)
  case 1
  show ?case by simp
next
  case (2 node removeParent)
  show ?case using size_childNodes [of node] by simp
next
  case (3 child rest)
  show ?case by simp
next
  case (4 child rest)
  show ?case by simp
qed

text \<open>The enter animation played on an element that has just been inserted.\<close>

definition showAnimation :: "node \<Rightarrow> event list" where
  "showAnimation nodeToInsert =
     (case routeAnimation nodeToInsert of
        Some anim \<Rightarrow> [StopAnimations (ident nodeToInsert),
                      AnimateTo (ident nodeToInsert) (anim_show anim)]
      | None \<Rightarrow> [])"

text \<open>The element children whose tag is not the wanted one, and the child nodes left
  once those are removed.\<close>

definition invalidNodes :: "node \<Rightarrow> node \<Rightarrow> node list" where
  "invalidNodes parent nodeToInsert =
     filter (\<lambda>el. tagName el \<noteq> tagName nodeToInsert) (filter is_Element (childNodes parent))"

definition remainingNodes :: "node \<Rightarrow> node \<Rightarrow> node list" where
  "remainingNodes parent nodeToInsert =
     filter (\<lambda>n. \<not> (is_Element n \<and> tagName n \<noteq> tagName nodeToInsert)) (childNodes parent)"

text \<open>Putting the reconciled first element child back in its place.\<close>

fun replaceFirstElement :: "node \<Rightarrow> node list \<Rightarrow> node list" where
  "replaceFirstElement c [] = []"
| "replaceFirstElement c (n # ns) =
     (if is_Element n then c # ns else n # replaceFirstElement c ns)"

text \<open>
  \<^verbatim>\<open>replaceRouteNodes\<close>, run to completion. It returns the parent as the document has it
  afterwards, and what was done on the way.
\<close>

function replaceRouteNodes :: "node list \<Rightarrow> node \<Rightarrow> nat \<Rightarrow> node \<times> event list" where
  "replaceRouteNodes componentChain parent depth =
     (if length componentChain \<le> depth
      then (setChildNodes parent [], reversedRouteNodeRemoval parent False)
      else
        let nodeToInsert = componentChain ! depth;
            removals = concat (map (\<lambda>el. reversedRouteNodeRemoval el True)
                                 (invalidNodes parent nodeToInsert));
            remaining = remainingNodes parent nodeToInsert
        in case find is_Element remaining of
             Some firstElementChild \<Rightarrow>
               let (child, evs) = replaceRouteNodes componentChain firstElementChild (depth + 1)
               in (setChildNodes parent (replaceFirstElement child remaining), removals @ evs)
           | None \<Rightarrow>
               let inserted = InsertAfterBegin (ident parent) (ident nodeToInsert)
                                # showAnimation nodeToInsert;
                   (child, evs) = replaceRouteNodes componentChain nodeToInsert (depth + 1)
               in (setChildNodes parent (child # remaining), removals @ inserted @ evs))"
  by pat_completeness auto
termination
  by (relation "measure (\<lambda>(componentChain, parent, depth). length componentChain - depth)") auto

text \<open>The nodes of a subtree, children before their parent.\<close>

function postorder :: "node \<Rightarrow> node list" where
  "postorder n = concat (map postorder (childNodes n)) @ [n]"
  by pat_completeness auto
termination
proof (relation "measure size", goal_cases)
  case 1
  show ?case by simp
next
  case (2 n c)
  have "size c \<le> size_list size (childNodes n)"
    using 2 by (simp add: size_list_estimation')
  then show ?case
    using 2 by (cases n) auto
qed




subsection \<open>Facts about the reconciliation\<close>

declare postorder.simps [simp del]
declare replaceRouteNodes.simps [simp del]



lemma is_Element_setChildNodes [simp]: "is_Element (setChildNodes p cs) = is_Element p"
  by (cases p) simp_all

lemma tagName_setChildNodes [simp]: "tagName (setChildNodes p cs) = tagName p"
  by (cases p) simp_all

lemma ident_setChildNodes [simp]: "ident (setChildNodes p cs) = ident p"
  by (cases p) simp_all

lemma routeAnimation_setChildNodes [simp]: "routeAnimation (setChildNodes p cs) = routeAnimation p"
  by (cases p) simp_all

lemma childNodes_setChildNodes [simp]: "is_Element p \<Longrightarrow> childNodes (setChildNodes p cs) = cs"
  by (cases p) simp_all

lemma setChildNodes_setChildNodes [simp]: "setChildNodes (setChildNodes p cs) cs' = setChildNodes p cs'"
  by (cases p) simp_all

lemma setChildNodes_same [simp]: "setChildNodes p (childNodes p) = p"
  by (cases p) simp_all

lemma replaceRouteNodes_done:
  "length chain \<le> d \<Longrightarrow>
     replaceRouteNodes chain p d = (setChildNodes p [], reversedRouteNodeRemoval p False)"
  by (subst replaceRouteNodes.simps) simp

lemma replaceRouteNodes_insert:
  "d < length chain \<Longrightarrow> find is_Element (remainingNodes p (chain ! d)) = None \<Longrightarrow>
     replaceRouteNodes chain p d =
       (setChildNodes p (fst (replaceRouteNodes chain (chain ! d) (d + 1))
                          # remainingNodes p (chain ! d)),
        concat (map (\<lambda>el. reversedRouteNodeRemoval el True) (invalidNodes p (chain ! d)))
        @ InsertAfterBegin (ident p) (ident (chain ! d)) # showAnimation (chain ! d)
        @ snd (replaceRouteNodes chain (chain ! d) (d + 1)))"
  by (subst replaceRouteNodes.simps) (simp add: Let_def case_prod_beta)


lemma replaceRouteNodes_shape:
  "\<exists>cs. fst (replaceRouteNodes chain p d) = setChildNodes p cs"
  by (subst replaceRouteNodes.simps)
     (auto simp: Let_def split: option.splits prod.splits)

lemma is_Element_replaceRouteNodes [simp]:
  "is_Element (fst (replaceRouteNodes chain p d)) = is_Element p"
  using replaceRouteNodes_shape [of chain p d] by auto

lemma tagName_replaceRouteNodes [simp]:
  "tagName (fst (replaceRouteNodes chain p d)) = tagName p"
  using replaceRouteNodes_shape [of chain p d] by auto





























section \<open>Navigation\<close>

definition MAX_REDIRECTIONS :: nat where
  "MAX_REDIRECTIONS = 200"

text \<open>
  Modelled from the spec: \<^verbatim>\<open>RouteHistory\<close> of \<^verbatim>\<open>route-history-base.js\<close>, which is not among
  the sources; \<open>history\<close> is the list of the routes handed to its \<^verbatim>\<open>setRoute\<close>, latest
  first.

  The other fields of \<^verbatim>\<open>Router\<close>: \<open>updateComplete\<close> tells whether the promise stored in
  \<^verbatim>\<open>this.updateComplete\<close> is resolved; \<open>nextIdent\<close> is the identity the next created
  element gets; \<open>domEvents\<close> is everything done to the document so far. \<^verbatim>\<open>baseUrl\<close> is
  part of the matcher.
\<close>

record Router =
  outlet :: node
  routes :: "InternalRoute list"
  history :: "string list"
  redirectionCount :: nat
  updateComplete :: bool
  nextIdent :: nat
  domEvents :: "event list"

text \<open>How the promise returned by one invocation of \<^verbatim>\<open>navigate\<close> settles, if it does.\<close>

datatype settled = Fulfilled "string option" | Rejected string | Pending

text \<open>
  Modelled from the spec: \<^verbatim>\<open>createPromiseResolver\<close> of \<^verbatim>\<open>createPromise.js\<close>, which is not
  among the sources. It hands out a promise and the function that resolves it; that
  function returns nothing, so an invocation that ends in \<^verbatim>\<open>return resolver(true)\<close> is
  fulfilled with no route.
\<close>

abbreviation (input) resolverResult :: "string option" where
  "resolverResult \<equiv> None"

text \<open>Reading \<^verbatim>\<open>xs[i]\<close> and \<^verbatim>\<open>xs.at(-1)\<close> off an array of optional values.\<close>

definition elemAt :: "'a option list \<Rightarrow> nat \<Rightarrow> 'a option" where
  "elemAt xs i = (if i < length xs then xs ! i else None)"

definition atLast :: "'a option list \<Rightarrow> 'a option" where
  "atLast xs = (if xs = [] then None else last xs)"

text \<open>
  One round of the loop that builds \<^verbatim>\<open>componentChain\<close>: the action's class if it yields
  one, else \<^verbatim>\<open>document.createElement(component ?? 'div')\<close>, with the route's animation
  attached. A tag name is a valid element name, taken in the form in which the document
  reports it. The new element has no child nodes.
\<close>

definition createComponent :: "InternalRoute \<Rightarrow> nat \<Rightarrow> nat \<Rightarrow> node" where
  "createComponent futureRoute i newIdent =
     (let actionResult = (case elemAt (InternalRoute.action futureRoute) i of
                            Some act \<Rightarrow> yields act
                          | None \<Rightarrow> None);
          tag = (case actionResult of
                   Some cls \<Rightarrow> cls
                 | None \<Rightarrow> (case elemAt (InternalRoute.component futureRoute) i of
                              Some c \<Rightarrow> c
                            | None \<Rightarrow> ''div''))
      in Element newIdent tag (elemAt (InternalRoute.animation futureRoute) i) [])"

definition componentChainOf :: "InternalRoute \<Rightarrow> nat \<Rightarrow> node list" where
  "componentChainOf futureRoute firstIdent =
     map (\<lambda>i. createComponent futureRoute i (firstIdent + i))
       [0..<length (InternalRoute.component futureRoute)]"

text \<open>
  One invocation of \<^verbatim>\<open>navigate\<close>, from the moment \<^verbatim>\<open>await this.updateComplete\<close> lets it
  go on to its return or throw. The result is how its promise settles, the route of the
  call \<^verbatim>\<open>this.navigate(whereToRedirect)\<close> it has made, if any, and the router afterwards.

  The call \<^verbatim>\<open>this.navigate(whereToRedirect)\<close> is not awaited and its promise is dropped;
  the invocation it starts waits for the promise this invocation resolves on returning,
  so its body runs after this one has returned. An invocation that finds the stored
  promise unresolved, with nothing left that would resolve it, stays \<open>Pending\<close>.

  \<^verbatim>\<open>replaceRouteNodes(this.outlet)\<close> is not awaited either. Here it is run to its end, so
  the router in the result of an invocation that commits is the router at the time its
  reconciliation has finished, with nothing else done to the document meanwhile. That
  is later than the time at which the promise is fulfilled: the code fulfils it, and
  lets the next navigation in, while the removals may still be going on. With an empty
  outlet there is no difference, the insertion being made before the first \<^verbatim>\<open>await\<close> of
  the reconciliation. What a navigation does that is started in between is the matter
  of the section on invocations in flight, below.
\<close>

definition navigate ::
  "(string \<Rightarrow> string \<Rightarrow> bool) \<Rightarrow> string \<Rightarrow> Router \<Rightarrow> settled \<times> string option \<times> Router" where
  "navigate urlPatternTest route s =
     (if \<not> updateComplete s then (Pending, None, s)
      else
        let s1 = s\<lparr>updateComplete := False\<rparr> in
        case getMatchingRoute urlPatternTest (routes s1) route of
          None \<Rightarrow> (Fulfilled resolverResult, None, s1\<lparr>updateComplete := True\<rparr>)
        | Some futureRoute \<Rightarrow>
            let componentChain = componentChainOf futureRoute (nextIdent s1);
                s2 = s1\<lparr>nextIdent := nextIdent s1 + length componentChain\<rparr>
            in case atLast (InternalRoute.redirect futureRoute) of
                 Some whereToRedirect \<Rightarrow>
                   if redirectionCount s2 > MAX_REDIRECTIONS
                   then (Rejected ''Circular redirections detected.'', None, s2)
                   else (Fulfilled resolverResult, Some whereToRedirect,
                         s2\<lparr>redirectionCount := redirectionCount s2 + 1,
                            updateComplete := True\<rparr>)
               | None \<Rightarrow>
                   let s3 = s2\<lparr>history := route # history s2\<rparr>;
                       (outlet', evs) = replaceRouteNodes componentChain (outlet s3) 0;
                       s4 = s3\<lparr>outlet := outlet', domEvents := domEvents s3 @ evs\<rparr>
                   in (Fulfilled (Some route), None,
                       s4\<lparr>updateComplete := True, redirectionCount := 0\<rparr>))"

lemma navigate_redirect_count:
  "navigate t route s = (r, Some target, s') \<Longrightarrow>
     redirectionCount s \<le> MAX_REDIRECTIONS \<and> redirectionCount s' = redirectionCount s + 1"
  by (auto simp: navigate_def Let_def case_prod_beta split: if_splits option.splits)

text \<open>
  A call of \<^verbatim>\<open>navigate\<close> from outside together with the invocations it sets off, each
  started by the one before it. The list holds how their promises settle, the outside
  caller's first.
\<close>

function navigateRun ::
  "(string \<Rightarrow> string \<Rightarrow> bool) \<Rightarrow> string \<Rightarrow> Router \<Rightarrow> settled list \<times> Router" where
  "navigateRun urlPatternTest route s =
     (case navigate urlPatternTest route s of
        (r, None, s') \<Rightarrow> ([r], s')
      | (r, Some whereToRedirect, s') \<Rightarrow>
          (case navigateRun urlPatternTest whereToRedirect s' of
             (rs, s'') \<Rightarrow> (r # rs, s'')))"
  by pat_completeness auto
termination
proof (relation "measure (\<lambda>(t, route, s). Suc MAX_REDIRECTIONS - redirectionCount s)", goal_cases)
  case 1
  show ?case by simp
next
  case (2 urlPatternTest route s r y whereTo s' target)
  then have "navigate urlPatternTest route s = (r, Some target, s')"
    by simp
  from navigate_redirect_count [OF this] show ?case
    by auto
qed

text \<open>
  Following redirects from any of \<open>paths\<close> never ends: each of them matches a chain whose
  own redirect entry is defined and leads to one of \<open>paths\<close> again.
\<close>

definition redirectCycle ::
  "(string \<Rightarrow> string \<Rightarrow> bool) \<Rightarrow> InternalRoute list \<Rightarrow> string list \<Rightarrow> bool" where
  "redirectCycle urlPatternTest table paths =
     list_all (\<lambda>p. case getMatchingRoute urlPatternTest table p of
                      None \<Rightarrow> False
                    | Some c \<Rightarrow> (case atLast (InternalRoute.redirect c) of
                                   None \<Rightarrow> False
                                 | Some q \<Rightarrow> q \<in> set paths)) paths"

text \<open>
  For the examples: a matcher that accepts a route equal to the pattern, with or without
  a leading slash; a router with an empty outlet, the flattened table, the counter at 0
  and no navigation under way; and the number of redirect hops of a run, one for each
  invocation after the first.
\<close>

definition exactMatch :: "string \<Rightarrow> string \<Rightarrow> bool" where
  "exactMatch pattern route = (route = pattern \<or> route = ''/'' @ pattern)"

definition idleRouter :: "Route list \<Rightarrow> Router" where
  "idleRouter rs =
     \<lparr>outlet = Element 0 ''OUTLET'' None [], routes = parseRoutes rs [] emptyRoute,
      history = [], redirectionCount = 0, updateComplete = True, nextIdent = 1,
      domEvents = []\<rparr>"


subsection \<open>Facts about one invocation and about a run\<close>

declare navigateRun.simps [simp del]

lemma navigate_pending:
  "\<not> updateComplete s \<Longrightarrow> navigate t p s = (Pending, None, s)"
  by (simp add: navigate_def)

lemma navigate_no_match:
  "updateComplete s \<Longrightarrow> getMatchingRoute t (routes s) p = None \<Longrightarrow>
     navigate t p s = (Fulfilled None, None, s)"
  by (simp add: navigate_def)

lemma length_componentChainOf [simp]:
  "length (componentChainOf c k) = length (InternalRoute.component c)"
  by (simp add: componentChainOf_def)

lemma navigate_redirect:
  "updateComplete s \<Longrightarrow> getMatchingRoute t (routes s) p = Some c \<Longrightarrow>
   atLast (InternalRoute.redirect c) = Some q \<Longrightarrow> redirectionCount s \<le> MAX_REDIRECTIONS \<Longrightarrow>
     navigate t p s =
       (Fulfilled None, Some q,
        s\<lparr>nextIdent := nextIdent s + length (InternalRoute.component c),
          redirectionCount := redirectionCount s + 1\<rparr>)"
  by (simp add: navigate_def Let_def)

lemma navigate_circular:
  "updateComplete s \<Longrightarrow> getMatchingRoute t (routes s) p = Some c \<Longrightarrow>
   atLast (InternalRoute.redirect c) = Some q \<Longrightarrow> MAX_REDIRECTIONS < redirectionCount s \<Longrightarrow>
     navigate t p s =
       (Rejected ''Circular redirections detected.'', None,
        s\<lparr>updateComplete := False,
          nextIdent := nextIdent s + length (InternalRoute.component c)\<rparr>)"
  by (simp add: navigate_def Let_def)

lemma navigate_commit:
  "updateComplete s \<Longrightarrow> getMatchingRoute t (routes s) p = Some c \<Longrightarrow>
   atLast (InternalRoute.redirect c) = None \<Longrightarrow>
     navigate t p s =
       (Fulfilled (Some p), None,
        s\<lparr>nextIdent := nextIdent s + length (InternalRoute.component c),
          history := p # history s,
          outlet := fst (replaceRouteNodes (componentChainOf c (nextIdent s)) (outlet s) 0),
          domEvents := domEvents s
             @ snd (replaceRouteNodes (componentChainOf c (nextIdent s)) (outlet s) 0),
          redirectionCount := 0\<rparr>)"
  by (simp add: navigate_def Let_def case_prod_beta)

lemma navigateRun_stop:
  "navigate t p s = (r, None, s') \<Longrightarrow> navigateRun t p s = ([r], s')"
  by (subst navigateRun.simps) simp

lemma navigateRun_hop:
  "navigate t p s = (r, Some q, s') \<Longrightarrow>
     navigateRun t p s = (r # fst (navigateRun t q s'), snd (navigateRun t q s'))"
  by (subst navigateRun.simps) (simp add: case_prod_beta)

lemma redirectCycle_step:
  assumes "redirectCycle t table paths" and "p \<in> set paths"
  obtains c q where "getMatchingRoute t table p = Some c"
    and "atLast (InternalRoute.redirect c) = Some q" and "q \<in> set paths"
proof -
  have "case getMatchingRoute t table p of
          None \<Rightarrow> False
        | Some c \<Rightarrow> (case atLast (InternalRoute.redirect c) of
                       None \<Rightarrow> False
                     | Some q \<Rightarrow> q \<in> set paths)"
    using assms unfolding redirectCycle_def list_all_iff by blast
  then show thesis
    using that by (cases "getMatchingRoute t table p")
      (auto split: option.splits)
qed

lemma navigateRun_cycle:
  assumes "redirectCycle t (routes s) paths" and "p \<in> set paths" and "updateComplete s"
    and "Suc MAX_REDIRECTIONS - redirectionCount s = n"
    and "redirectionCount s \<le> Suc MAX_REDIRECTIONS"
  shows "fst (navigateRun t p s) =
           replicate n (Fulfilled None) @ [Rejected ''Circular redirections detected.'']
       \<and> redirectionCount (snd (navigateRun t p s)) = Suc MAX_REDIRECTIONS
       \<and> \<not> updateComplete (snd (navigateRun t p s))
       \<and> outlet (snd (navigateRun t p s)) = outlet s
       \<and> domEvents (snd (navigateRun t p s)) = domEvents s
       \<and> history (snd (navigateRun t p s)) = history s"
  using assms
proof (induction n arbitrary: s p)
  case 0
  from redirectCycle_step [OF "0.prems"(1,2)]
  obtain c q where c: "getMatchingRoute t (routes s) p = Some c"
    "atLast (InternalRoute.redirect c) = Some q" "q \<in> set paths"
    by blast
  have "MAX_REDIRECTIONS < redirectionCount s"
    using "0.prems"(4,5) by simp
  from navigate_circular [OF "0.prems"(3) c(1,2) this]
  show ?case
    using "0.prems"(4,5) by (simp add: navigateRun_stop)
next
  case (Suc n)
  from redirectCycle_step [OF Suc.prems(1,2)]
  obtain c q where c: "getMatchingRoute t (routes s) p = Some c"
    "atLast (InternalRoute.redirect c) = Some q" "q \<in> set paths"
    by blast
  have le: "redirectionCount s \<le> MAX_REDIRECTIONS"
    using Suc.prems(4) by simp
  let ?s' = "s\<lparr>nextIdent := nextIdent s + length (InternalRoute.component c),
          redirectionCount := redirectionCount s + 1\<rparr>"
  note nav = navigate_redirect [OF Suc.prems(3) c(1,2) le]
  have "fst (navigateRun t q ?s') =
           replicate n (Fulfilled None) @ [Rejected ''Circular redirections detected.'']
       \<and> redirectionCount (snd (navigateRun t q ?s')) = Suc MAX_REDIRECTIONS
       \<and> \<not> updateComplete (snd (navigateRun t q ?s'))
       \<and> outlet (snd (navigateRun t q ?s')) = outlet ?s'
       \<and> domEvents (snd (navigateRun t q ?s')) = domEvents ?s'
       \<and> history (snd (navigateRun t q ?s')) = history ?s'"
    using Suc.prems le c(3) by (intro Suc.IH) simp_all
  then show ?case
    unfolding navigateRun_hop [OF nav] by simp
qed

subsection \<open>Redirect loops\<close>

lemma selfRedirect_cycle:
  "redirectCycle exactMatch
     (routes (idleRouter [Route ''a'' None None None None (Some ''a'') []])) [''a'']"
  by (simp add: redirectCycle_def idleRouter_def pushRoute_def clone_def emptyRoute_def
      getMatchingRoute_def exactMatch_def atLast_def)





text \<open>
  Claim C7, as the code has it. The circular-redirection error rejects the promise of
  the invocation that finds the counter above 200. In a redirect loop entered with the
  counter at 200 or below, that is an invocation started by \<^verbatim>\<open>this.navigate(whereToRedirect)\<close>,
  whose promise nobody holds: the promise returned to the outside caller is fulfilled
  after the first hop, and the rejection is the last invocation's and no other's. Only
  when the counter is already above 200 on entry is the outside caller's own promise the
  one that is rejected.
\<close>

theorem circular_error_rejects_the_invocation_that_detects_it:
  assumes "redirectCycle t (routes s) paths" and "p \<in> set paths" and "updateComplete s"
  shows "(redirectionCount s \<le> 200 \<longrightarrow>
            hd (fst (navigateRun t p s)) = Fulfilled None
          \<and> 2 \<le> length (fst (navigateRun t p s))
          \<and> last (fst (navigateRun t p s)) = Rejected ''Circular redirections detected.''
          \<and> Rejected ''Circular redirections detected.''
               \<notin> set (butlast (fst (navigateRun t p s))))
       \<and> (200 < redirectionCount s \<longrightarrow>
            fst (navigateRun t p s) = [Rejected ''Circular redirections detected.''])"
proof (intro conjI impI)
  assume le: "redirectionCount s \<le> 200"
  then have n: "Suc MAX_REDIRECTIONS - redirectionCount s = Suc (200 - redirectionCount s)"
    and le': "redirectionCount s \<le> Suc MAX_REDIRECTIONS"
    by (simp_all add: MAX_REDIRECTIONS_def)
  from navigateRun_cycle [OF assms n le']
  have run: "fst (navigateRun t p s) =
      Fulfilled None # replicate (200 - redirectionCount s) (Fulfilled None)
      @ [Rejected ''Circular redirections detected.'']"
    by simp
  show "hd (fst (navigateRun t p s)) = Fulfilled None"
    unfolding run by simp
  show "2 \<le> length (fst (navigateRun t p s))"
    unfolding run by simp
  show "last (fst (navigateRun t p s)) = Rejected ''Circular redirections detected.''"
    unfolding run by simp
  show "Rejected ''Circular redirections detected.'' \<notin> set (butlast (fst (navigateRun t p s)))"
    unfolding run by (simp add: butlast_append)
next
  assume gt: "200 < redirectionCount s"
  from redirectCycle_step [OF assms(1,2)]
  obtain c q where c: "getMatchingRoute t (routes s) p = Some c"
    "atLast (InternalRoute.redirect c) = Some q"
    by blast
  have "MAX_REDIRECTIONS < redirectionCount s"
    using gt by (simp add: MAX_REDIRECTIONS_def)
  from navigate_circular [OF assms(3) c this]
  show "fst (navigateRun t p s) = [Rejected ''Circular redirections detected.'']"
    by (simp add: navigateRun_stop)
qed

theorem circular_error_rejects_the_invocation_that_detects_it_witness:
  "hd (fst (navigateRun exactMatch ''a''
          (idleRouter [Route ''a'' None None None None (Some ''a'') []]))) = Fulfilled None
   \<and> last (fst (navigateRun exactMatch ''a''
          (idleRouter [Route ''a'' None None None None (Some ''a'') []])))
       = Rejected ''Circular redirections detected.''
   \<and> fst (navigateRun exactMatch ''a''
          ((idleRouter [Route ''a'' None None None None (Some ''a'') []])
             \<lparr>redirectionCount := 201\<rparr>))
       = [Rejected ''Circular redirections detected.'']"
proof -
  let ?s = "idleRouter [Route ''a'' None None None None (Some ''a'') []]"
  let ?s' = "?s\<lparr>redirectionCount := 201\<rparr>"
  have p: "''a'' \<in> set [''a'']" by simp
  have u: "updateComplete ?s" and z: "redirectionCount ?s \<le> 200"
    by (simp_all add: idleRouter_def)
  have cyc': "redirectCycle exactMatch (routes ?s') [''a'']"
    using selfRedirect_cycle by simp
  have u': "updateComplete ?s'" and z': "200 < redirectionCount ?s'"
    by (simp_all add: idleRouter_def)
  show ?thesis
    using circular_error_rejects_the_invocation_that_detects_it [OF selfRedirect_cycle p u]
      circular_error_rejects_the_invocation_that_detects_it [OF cyc' p u'] z z'
    by simp
qed

text \<open>
  A route that redirects to itself, navigated from a counter of 0: the threshold is
  exceeded, and the promise returned to the outside caller is fulfilled, not rejected.
\<close>

theorem circular_error_not_delivered_to_caller_counterexample:
  "hd (fst (navigateRun exactMatch ''a''
          (idleRouter [Route ''a'' None None None None (Some ''a'') []]))) = Fulfilled None
   \<and> hd (fst (navigateRun exactMatch ''a''
          (idleRouter [Route ''a'' None None None None (Some ''a'') []])))
       \<noteq> Rejected ''Circular redirections detected.''
   \<and> redirectionCount (snd (navigateRun exactMatch ''a''
          (idleRouter [Route ''a'' None None None None (Some ''a'') []]))) = 201"
proof -
  let ?s = "idleRouter [Route ''a'' None None None None (Some ''a'') []]"
  have p: "''a'' \<in> set [''a'']" by simp
  have u: "updateComplete ?s"
    by (simp add: idleRouter_def)
  have n: "Suc MAX_REDIRECTIONS - redirectionCount ?s = 201"
    and le: "redirectionCount ?s \<le> Suc MAX_REDIRECTIONS"
    by (simp_all add: MAX_REDIRECTIONS_def idleRouter_def)
  from navigateRun_cycle [OF selfRedirect_cycle p u n le] show ?thesis
    by (simp add: MAX_REDIRECTIONS_def)
qed

subsection \<open>The redirect check\<close>

text \<open>
  Claim C6, with the guard the code has. For a navigation whose matched chain has a
  defined redirect entry at its own, deepest index: while the counter is at most 200 the
  invocation mounts nothing (outlet, document and history stay as they are), increments
  the counter, calls \<^verbatim>\<open>navigate\<close> on the redirect target, resolves its promise
  \<^verbatim>\<open>updateComplete\<close> and returns;
  once the counter is above 200 it throws instead, without incrementing, without
  calling \<^verbatim>\<open>navigate\<close> and with \<^verbatim>\<open>updateComplete\<close> left unresolved, and still mounts
  nothing. A
  chain whose own entry is undefined makes no redirect, whatever its ancestors' entries
  are.
\<close>

theorem navigate_redirects_on_own_entry_below_threshold:
  assumes "updateComplete s" and "getMatchingRoute t (routes s) p = Some c"
  shows "(atLast (InternalRoute.redirect c) = Some q \<and> redirectionCount s \<le> 200 \<longrightarrow>
            navigate t p s =
              (Fulfilled None, Some q,
               s\<lparr>nextIdent := nextIdent s + length (InternalRoute.component c),
                 redirectionCount := redirectionCount s + 1\<rparr>))
       \<and> (atLast (InternalRoute.redirect c) = Some q \<and> 200 < redirectionCount s \<longrightarrow>
            navigate t p s =
              (Rejected ''Circular redirections detected.'', None,
               s\<lparr>updateComplete := False,
                 nextIdent := nextIdent s + length (InternalRoute.component c)\<rparr>))
       \<and> (InternalRoute.redirect c \<noteq> [] \<and> last (InternalRoute.redirect c) = None \<longrightarrow>
            fst (navigate t p s) = Fulfilled (Some p) \<and> fst (snd (navigate t p s)) = None)"
proof (intro conjI impI)
  assume "atLast (InternalRoute.redirect c) = Some q \<and> redirectionCount s \<le> 200"
  then show "navigate t p s =
              (Fulfilled None, Some q,
               s\<lparr>nextIdent := nextIdent s + length (InternalRoute.component c),
                 redirectionCount := redirectionCount s + 1\<rparr>)"
    using navigate_redirect [OF assms, of q] by (simp add: MAX_REDIRECTIONS_def)
next
  assume "atLast (InternalRoute.redirect c) = Some q \<and> 200 < redirectionCount s"
  then show "navigate t p s =
              (Rejected ''Circular redirections detected.'', None,
               s\<lparr>updateComplete := False,
                 nextIdent := nextIdent s + length (InternalRoute.component c)\<rparr>)"
    using navigate_circular [OF assms, of q] by (simp add: MAX_REDIRECTIONS_def)
next
  assume a: "InternalRoute.redirect c \<noteq> [] \<and> last (InternalRoute.redirect c) = None"
  then have "atLast (InternalRoute.redirect c) = None"
    by (simp add: atLast_def)
  from navigate_commit [OF assms this]
  show "fst (navigate t p s) = Fulfilled (Some p)" and "fst (snd (navigate t p s)) = None"
    by simp_all
qed

text \<open>
  The counter is reset only by a navigation that commits. A route that redirects to a
  path no chain matches leaves it one higher at every navigation.
\<close>

lemma deadEnd_run:
  assumes "routes s = parseRoutes [Route ''a'' None None None None (Some ''gone'') []] [] emptyRoute"
    and "updateComplete s" and "redirectionCount s \<le> MAX_REDIRECTIONS"
  shows "navigateRun exactMatch ''a'' s =
           ([Fulfilled None, Fulfilled None],
            s\<lparr>nextIdent := nextIdent s + 1, redirectionCount := redirectionCount s + 1\<rparr>)"
proof -
  let ?c = "\<lparr>path = [''a''], name = None, component = [None], action = [None],
      animation = [None], redirect = [Some ''gone'']\<rparr>"
  let ?s' = "s\<lparr>nextIdent := nextIdent s + 1, redirectionCount := redirectionCount s + 1\<rparr>"
  have tbl: "routes s = [?c]"
    unfolding assms(1) by (simp add: pushRoute_def clone_def emptyRoute_def)
  have m: "getMatchingRoute exactMatch (routes s) ''a'' = Some ?c"
    unfolding tbl by (simp add: getMatchingRoute_def exactMatch_def)
  have l: "atLast (InternalRoute.redirect ?c) = Some ''gone''"
    by (simp add: atLast_def)
  have first: "navigate exactMatch ''a'' s = (Fulfilled None, Some ''gone'', ?s')"
    using navigate_redirect [OF assms(2) m l assms(3)] by simp
  have m': "getMatchingRoute exactMatch (routes ?s') ''gone'' = None"
    by (simp add: tbl getMatchingRoute_def exactMatch_def)
  have second: "navigate exactMatch ''gone'' ?s' = (Fulfilled None, None, ?s')"
    using assms(2) m' by (intro navigate_no_match) simp_all
  show ?thesis
    unfolding navigateRun_hop [OF first] navigateRun_stop [OF second] by simp
qed

lemma deadEnd_counter_accumulates:
  "n \<le> 201 \<Longrightarrow>
     ((\<lambda>s. snd (navigateRun exactMatch ''a'' s)) ^^ n)
        (idleRouter [Route ''a'' None None None None (Some ''gone'') []])
     = (idleRouter [Route ''a'' None None None None (Some ''gone'') []])
         \<lparr>nextIdent := 1 + n, redirectionCount := n\<rparr>"
proof (induction n)
  case 0
  show ?case by (simp add: idleRouter_def)
next
  case (Suc n)
  let ?s = "(idleRouter [Route ''a'' None None None None (Some ''gone'') []])
         \<lparr>nextIdent := 1 + n, redirectionCount := n\<rparr>"
  have r: "routes ?s = parseRoutes [Route ''a'' None None None None (Some ''gone'') []] [] emptyRoute"
    and u: "updateComplete ?s" and c: "redirectionCount ?s \<le> MAX_REDIRECTIONS"
    using Suc.prems by (simp_all add: idleRouter_def MAX_REDIRECTIONS_def)
  show ?case
    using Suc deadEnd_run [OF r u c] by simp
qed

text \<open>
  After 201 navigations to such a route, the next one matches a chain with a defined
  redirect entry of its own and throws: no increment, no call of \<^verbatim>\<open>navigate\<close>, the promise
  left unresolved.
\<close>

theorem navigate_redirect_refused_counterexample:
  "fst (navigate exactMatch ''a''
     (((\<lambda>s. snd (navigateRun exactMatch ''a'' s)) ^^ 201)
        (idleRouter [Route ''a'' None None None None (Some ''gone'') []])))
     = Rejected ''Circular redirections detected.''
   \<and> fst (snd (navigate exactMatch ''a''
     (((\<lambda>s. snd (navigateRun exactMatch ''a'' s)) ^^ 201)
        (idleRouter [Route ''a'' None None None None (Some ''gone'') []])))) = None
   \<and> redirectionCount (snd (snd (navigate exactMatch ''a''
     (((\<lambda>s. snd (navigateRun exactMatch ''a'' s)) ^^ 201)
        (idleRouter [Route ''a'' None None None None (Some ''gone'') []]))))) = 201
   \<and> \<not> updateComplete (snd (snd (navigate exactMatch ''a''
     (((\<lambda>s. snd (navigateRun exactMatch ''a'' s)) ^^ 201)
        (idleRouter [Route ''a'' None None None None (Some ''gone'') []])))))"
proof -
  let ?c = "\<lparr>path = [''a''], name = None, component = [None], action = [None],
      animation = [None], redirect = [Some ''gone'']\<rparr>"
  let ?s = "(idleRouter [Route ''a'' None None None None (Some ''gone'') []])
         \<lparr>nextIdent := 1 + 201, redirectionCount := 201\<rparr>"
  have st: "((\<lambda>s. snd (navigateRun exactMatch ''a'' s)) ^^ 201)
        (idleRouter [Route ''a'' None None None None (Some ''gone'') []]) = ?s"
    by (rule deadEnd_counter_accumulates) simp
  have u: "updateComplete ?s"
    by (simp add: idleRouter_def)
  have m: "getMatchingRoute exactMatch (routes ?s) ''a'' = Some ?c"
    by (simp add: idleRouter_def pushRoute_def clone_def emptyRoute_def getMatchingRoute_def
        exactMatch_def)
  have l: "atLast (InternalRoute.redirect ?c) = Some ''gone''"
    by (simp add: atLast_def)
  have g: "MAX_REDIRECTIONS < redirectionCount ?s"
    by (simp add: MAX_REDIRECTIONS_def)
  show ?thesis
    unfolding st navigate_circular [OF u m l g] by simp
qed

theorem navigate_redirects_on_own_entry_below_threshold_witness:
  "navigate exactMatch ''/away''
     (idleRouter [Route ''home'' None (Some ''home-view'') None None None [],
                  Route ''away'' None None None None (Some ''home'') []])
   = (Fulfilled None, Some ''home'',
      (idleRouter [Route ''home'' None (Some ''home-view'') None None None [],
                   Route ''away'' None None None None (Some ''home'') []])
        \<lparr>nextIdent := 2, redirectionCount := 1\<rparr>)
   \<and> fst (snd (navigate exactMatch ''/a/b''
     (idleRouter [Route ''a'' None None None None (Some ''x'')
                    [Route ''b'' None None None None None []]]))) = None
   \<and> fst (navigate exactMatch ''a''
     ((idleRouter [Route ''a'' None None None None (Some ''a'') []])
        \<lparr>redirectionCount := 201\<rparr>)) = Rejected ''Circular redirections detected.''"
proof -
  let ?s1 = "idleRouter [Route ''home'' None (Some ''home-view'') None None None [],
                  Route ''away'' None None None None (Some ''home'') []]"
  let ?away = "\<lparr>path = [''away''], name = None, component = [None], action = [None],
      animation = [None], redirect = [Some ''home'']\<rparr>"
  have u1: "updateComplete ?s1" by (simp add: idleRouter_def)
  have m1: "getMatchingRoute exactMatch (routes ?s1) ''/away'' = Some ?away"
    by (simp add: idleRouter_def pushRoute_def clone_def emptyRoute_def getMatchingRoute_def
        exactMatch_def)
  have a: "navigate exactMatch ''/away'' ?s1
      = (Fulfilled None, Some ''home'', ?s1\<lparr>nextIdent := 2, redirectionCount := 1\<rparr>)"
    using navigate_redirects_on_own_entry_below_threshold [OF u1 m1, of "''home''"]
    by (simp add: atLast_def idleRouter_def)
  let ?s2 = "idleRouter [Route ''a'' None None None None (Some ''x'')
                    [Route ''b'' None None None None None []]]"
  let ?ab = "\<lparr>path = [''a'', ''b''], name = None, component = [None, None],
      action = [None, None], animation = [None, None], redirect = [Some ''x'', None]\<rparr>"
  have u2: "updateComplete ?s2" by (simp add: idleRouter_def)
  have m2: "getMatchingRoute exactMatch (routes ?s2) ''/a/b'' = Some ?ab"
    by (simp add: idleRouter_def pushRoute_def clone_def emptyRoute_def getMatchingRoute_def
        exactMatch_def)
  have b: "fst (snd (navigate exactMatch ''/a/b'' ?s2)) = None"
    using navigate_redirects_on_own_entry_below_threshold [OF u2 m2]
    by simp
  let ?s3 = "(idleRouter [Route ''a'' None None None None (Some ''a'') []])
        \<lparr>redirectionCount := 201\<rparr>"
  let ?a = "\<lparr>path = [''a''], name = None, component = [None], action = [None],
      animation = [None], redirect = [Some ''a'']\<rparr>"
  have u3: "updateComplete ?s3" by (simp add: idleRouter_def)
  have m3: "getMatchingRoute exactMatch (routes ?s3) ''a'' = Some ?a"
    by (simp add: idleRouter_def pushRoute_def clone_def emptyRoute_def getMatchingRoute_def
        exactMatch_def)
  have c: "fst (navigate exactMatch ''a'' ?s3) = Rejected ''Circular redirections detected.''"
    using navigate_redirects_on_own_entry_below_threshold [OF u3 m3, of "''a''"]
    by (simp add: atLast_def)
  show ?thesis
    using a b c by blast
qed

subsection \<open>A redirect to a view\<close>

lemma home_away_table:
  "parseRoutes [Route ''home'' None (Some ''home-view'') None None None [],
                Route ''away'' None None None None (Some ''home'') []] [] emptyRoute
   = [\<lparr>path = [''home''], name = None, component = [Some ''home-view''], action = [None],
        animation = [None], redirect = [None]\<rparr>,
      \<lparr>path = [''away''], name = None, component = [None], action = [None],
        animation = [None], redirect = [Some ''home'']\<rparr>]"
  by (simp add: pushRoute_def clone_def emptyRoute_def)

lemma home_away_first:
  assumes "routes s = parseRoutes [Route ''home'' None (Some ''home-view'') None None None [],
                Route ''away'' None None None None (Some ''home'') []] [] emptyRoute"
    and "updateComplete s" and "redirectionCount s \<le> 200"
    and "t ''away'' ''/away''" and "\<not> t ''home'' ''/away''"
  shows "navigate t ''/away'' s =
      (Fulfilled None, Some ''home'',
       s\<lparr>nextIdent := nextIdent s + 1, redirectionCount := redirectionCount s + 1\<rparr>)"
proof -
  let ?away = "\<lparr>path = [''away''], name = None, component = [None], action = [None],
        animation = [None], redirect = [Some ''home'']\<rparr>"
  have m: "getMatchingRoute t (routes s) ''/away'' = Some ?away"
    unfolding assms(1) home_away_table using assms(4,5) by (simp add: getMatchingRoute_def)
  have l: "atLast (InternalRoute.redirect ?away) = Some ''home''"
    by (simp add: atLast_def)
  have c: "redirectionCount s \<le> MAX_REDIRECTIONS"
    using assms(3) by (simp add: MAX_REDIRECTIONS_def)
  show ?thesis
    using navigate_redirect [OF assms(2) m l c] by simp
qed

lemma home_away_second:
  assumes "routes s = parseRoutes [Route ''home'' None (Some ''home-view'') None None None [],
                Route ''away'' None None None None (Some ''home'') []] [] emptyRoute"
    and "updateComplete s" and "outlet s = Element i tag a []" and "t ''home'' ''home''"
  shows "navigate t ''home'' s =
      (Fulfilled (Some ''home''), None,
       s\<lparr>nextIdent := nextIdent s + 1, history := ''home'' # history s,
         outlet := Element i tag a [Element (nextIdent s) ''home-view'' None []],
         domEvents := domEvents s @ [InsertAfterBegin i (nextIdent s)],
         redirectionCount := 0\<rparr>)"
proof -
  let ?home = "\<lparr>path = [''home''], name = None, component = [Some ''home-view''],
        action = [None], animation = [None], redirect = [None]\<rparr>"
  have m: "getMatchingRoute t (routes s) ''home'' = Some ?home"
    unfolding assms(1) home_away_table using assms(4) by (simp add: getMatchingRoute_def)
  have l: "atLast (InternalRoute.redirect ?home) = None"
    by (simp add: atLast_def)
  have ch: "componentChainOf ?home (nextIdent s) = [Element (nextIdent s) ''home-view'' None []]"
    by (simp add: componentChainOf_def createComponent_def elemAt_def)
  have rec: "replaceRouteNodes [Element (nextIdent s) ''home-view'' None []] (Element i tag a []) 0
      = (Element i tag a [Element (nextIdent s) ''home-view'' None []],
         [InsertAfterBegin i (nextIdent s)])"
    by (simp add: replaceRouteNodes_done replaceRouteNodes_insert remainingNodes_def
        invalidNodes_def showAnimation_def)
  show ?thesis
    using navigate_commit [OF assms(2) m l] unfolding ch assms(3) rec by simp
qed

text \<open>
  Claim C8, as the code has it. With the declarations
  \<^verbatim>\<open>[{path:'home', component:'home-view'}, {path:'away', redirect:'home'}]\<close>, an empty
  outlet and a matcher that takes \<^verbatim>\<open>/away\<close> to the second chain and \<^verbatim>\<open>home\<close> to the first:
  the promise returned by \<^verbatim>\<open>navigate('/away')\<close> is fulfilled with no path as soon as the
  redirect has been issued, with nothing mounted yet and the counter one higher. It is
  the invocation started by the redirect that mounts exactly one \<^verbatim>\<open>home-view\<close> element
  in the outlet, hands \<^verbatim>\<open>home\<close> to the history, returns \<^verbatim>\<open>home\<close> and puts the counter
  back to 0.
\<close>

theorem redirect_mounts_home_view_after_the_spawned_navigation:
  assumes "routes s = parseRoutes [Route ''home'' None (Some ''home-view'') None None None [],
                Route ''away'' None None None None (Some ''home'') []] [] emptyRoute"
    and "updateComplete s" and "redirectionCount s \<le> 200" and "outlet s = Element i tag a []"
    and "t ''away'' ''/away''" and "\<not> t ''home'' ''/away''" and "t ''home'' ''home''"
  shows "navigate t ''/away'' s =
      (Fulfilled None, Some ''home'',
       s\<lparr>nextIdent := nextIdent s + 1, redirectionCount := redirectionCount s + 1\<rparr>)
    \<and> navigateRun t ''/away'' s =
      ([Fulfilled None, Fulfilled (Some ''home'')],
       s\<lparr>nextIdent := nextIdent s + 2, history := ''home'' # history s,
         outlet := Element i tag a [Element (nextIdent s + 1) ''home-view'' None []],
         domEvents := domEvents s @ [InsertAfterBegin i (nextIdent s + 1)],
         redirectionCount := 0\<rparr>)"
proof -
  let ?s' = "s\<lparr>nextIdent := nextIdent s + 1, redirectionCount := redirectionCount s + 1\<rparr>"
  note first = home_away_first [where t = t, OF assms(1,2,3,5,6)]
  have r: "routes ?s' = parseRoutes [Route ''home'' None (Some ''home-view'') None None None [],
                Route ''away'' None None None None (Some ''home'') []] [] emptyRoute"
    and u: "updateComplete ?s'" and o: "outlet ?s' = Element i tag a []"
    using assms(1,2,4) by simp_all
  note second = home_away_second [where t = t, OF r u o assms(7)]
  show ?thesis
    unfolding navigateRun_hop [OF first] navigateRun_stop [OF second] using first by simp
qed

theorem redirect_mounts_home_view_after_the_spawned_navigation_witness:
  "navigateRun exactMatch ''/away''
     (idleRouter [Route ''home'' None (Some ''home-view'') None None None [],
                  Route ''away'' None None None None (Some ''home'') []])
   = ([Fulfilled None, Fulfilled (Some ''home'')],
      (idleRouter [Route ''home'' None (Some ''home-view'') None None None [],
                   Route ''away'' None None None None (Some ''home'') []])
        \<lparr>nextIdent := 3, history := [''home''],
          outlet := Element 0 ''OUTLET'' None [Element 2 ''home-view'' None []],
          domEvents := [InsertAfterBegin 0 2], redirectionCount := 0\<rparr>)"
proof -
  let ?s = "idleRouter [Route ''home'' None (Some ''home-view'') None None None [],
                  Route ''away'' None None None None (Some ''home'') []]"
  have r: "routes ?s = parseRoutes [Route ''home'' None (Some ''home-view'') None None None [],
                Route ''away'' None None None None (Some ''home'') []] [] emptyRoute"
    and u: "updateComplete ?s" and c: "redirectionCount ?s \<le> 200"
    and o: "outlet ?s = Element 0 ''OUTLET'' None []"
    by (simp_all add: idleRouter_def)
  have t1: "exactMatch ''away'' ''/away''" and t2: "\<not> exactMatch ''home'' ''/away''"
    and t3: "exactMatch ''home'' ''home''"
    by (simp_all add: exactMatch_def)
  from redirect_mounts_home_view_after_the_spawned_navigation
    [where t = exactMatch, OF r u c o t1 t2 t3]
  show ?thesis
    by (simp add: idleRouter_def)
qed

text \<open>
  When the promise returned by \<^verbatim>\<open>navigate('/away')\<close> settles, it carries no path, the
  outlet has no child, nothing has been handed to the history and the counter is 1.
\<close>

theorem awaited_promise_settles_before_mount_counterexample:
  "fst (navigate exactMatch ''/away''
     (idleRouter [Route ''home'' None (Some ''home-view'') None None None [],
                  Route ''away'' None None None None (Some ''home'') []])) = Fulfilled None
   \<and> childNodes (outlet (snd (snd (navigate exactMatch ''/away''
     (idleRouter [Route ''home'' None (Some ''home-view'') None None None [],
                  Route ''away'' None None None None (Some ''home'') []]))))) = []
   \<and> redirectionCount (snd (snd (navigate exactMatch ''/away''
     (idleRouter [Route ''home'' None (Some ''home-view'') None None None [],
                  Route ''away'' None None None None (Some ''home'') []])))) = 1
   \<and> history (snd (snd (navigate exactMatch ''/away''
     (idleRouter [Route ''home'' None (Some ''home-view'') None None None [],
                  Route ''away'' None None None None (Some ''home'') []])))) = []"
proof -
  let ?s = "idleRouter [Route ''home'' None (Some ''home-view'') None None None [],
                  Route ''away'' None None None None (Some ''home'') []]"
  have r: "routes ?s = parseRoutes [Route ''home'' None (Some ''home-view'') None None None [],
                Route ''away'' None None None None (Some ''home'') []] [] emptyRoute"
    and u: "updateComplete ?s" and c: "redirectionCount ?s \<le> 200"
    by (simp_all add: idleRouter_def)
  have t1: "exactMatch ''away'' ''/away''" and t2: "\<not> exactMatch ''home'' ''/away''"
    by (simp_all add: exactMatch_def)
  show ?thesis
    unfolding home_away_first [where t = exactMatch, OF r u c t1 t2] by (simp add: idleRouter_def)
qed

subsection \<open>A navigation that commits, and the one after it\<close>







section \<open>Invocations in flight\<close>

text \<open>
  \<open>navigate\<close> above gives the router as it is once the reconciliation has run to its end.
  The code does not wait for that: \<^verbatim>\<open>replaceRouteNodes(this.outlet)\<close> is called without
  \<^verbatim>\<open>await\<close>, so the promise stored in \<^verbatim>\<open>this.updateComplete\<close> is resolved, and the promise
  of the invocation fulfilled, while the removals below the outlet are still going on,
  and a navigation started then runs its own reconciliation in between. This section
  follows the invocations microtask by microtask.

  Every invocation of an \<^verbatim>\<open>async\<close> function has a promise of its own; a promise is named
  by a number. The document is held by identity: each node with its tag, the animation
  attached to it, whether it is an element, and the identities of its child nodes in
  order. A node taken out of the document keeps its entry, and its own child nodes.
\<close>

type_synonym promise = nat

record domNode =
  nodeTag :: string
  nodeAnimation :: "RouteAnimation option"
  nodeIsElement :: bool
  nodeChildren :: "nat list"

type_synonym document = "(nat \<times> domNode) list"

text \<open>The entry of a node, and the document that holds a tree.\<close>

definition entryOf :: "node \<Rightarrow> nat \<times> domNode" where
  "entryOf n = (ident n, \<lparr>nodeTag = tagName n, nodeAnimation = routeAnimation n,
     nodeIsElement = is_Element n, nodeChildren = map ident (childNodes n)\<rparr>)"

definition documentOf :: "node \<Rightarrow> document" where
  "documentOf n = map entryOf (postorder n)"

text \<open>
  What the code reads off a node: \<^verbatim>\<open>childNodes\<close>, \<^verbatim>\<open>tagName\<close>, \<^verbatim>\<open>__routeAnimation\<close>,
  \<^verbatim>\<open>firstChild\<close>, \<^verbatim>\<open>children\<close> (the element children) and \<^verbatim>\<open>firstElementChild\<close>.
\<close>

definition childNodesOf :: "document \<Rightarrow> nat \<Rightarrow> nat list" where
  "childNodesOf d i = (case map_of d i of Some n \<Rightarrow> nodeChildren n | None \<Rightarrow> [])"

definition isElementIn :: "document \<Rightarrow> nat \<Rightarrow> bool" where
  "isElementIn d i = (case map_of d i of Some n \<Rightarrow> nodeIsElement n | None \<Rightarrow> False)"

definition tagNameOf :: "document \<Rightarrow> nat \<Rightarrow> string" where
  "tagNameOf d i = (case map_of d i of Some n \<Rightarrow> nodeTag n | None \<Rightarrow> [])"

definition routeAnimationOf :: "document \<Rightarrow> nat \<Rightarrow> RouteAnimation option" where
  "routeAnimationOf d i = (case map_of d i of Some n \<Rightarrow> nodeAnimation n | None \<Rightarrow> None)"

definition firstChild :: "document \<Rightarrow> nat \<Rightarrow> nat option" where
  "firstChild d i = (case childNodesOf d i of [] \<Rightarrow> None | c # cs \<Rightarrow> Some c)"

definition childrenOf :: "document \<Rightarrow> nat \<Rightarrow> nat list" where
  "childrenOf d i = filter (isElementIn d) (childNodesOf d i)"

definition firstElementChild :: "document \<Rightarrow> nat \<Rightarrow> nat option" where
  "firstElementChild d i = find (isElementIn d) (childNodesOf d i)"

text \<open>
  \<^verbatim>\<open>el.remove()\<close> takes the node out of the child nodes of its parent, and does nothing to
  a node that has no parent. \<^verbatim>\<open>parent.insertAdjacentElement('afterbegin', el)\<close> takes the
  element from where it is and makes it the first child of \<open>parent\<close>.
\<close>

definition removeNode :: "nat \<Rightarrow> document \<Rightarrow> document" where
  "removeNode i d = map (\<lambda>(k, n). (k, n\<lparr>nodeChildren := removeAll i (nodeChildren n)\<rparr>)) d"

definition insertAdjacentElement :: "nat \<Rightarrow> nat \<Rightarrow> document \<Rightarrow> document" where
  "insertAdjacentElement parent el d =
     map (\<lambda>(k, n). (k, if k = parent then n\<lparr>nodeChildren := el # nodeChildren n\<rparr> else n))
       (removeNode el d)"

text \<open>
  Where an invocation is, with its local variables. The first point of a function is
  named after the function; a later one after the function and the line of
  \<^verbatim>\<open>router.ts\<close> at which it goes on once the \<^verbatim>\<open>await\<close> or the call before that line is
  done. \<open>Finish\<close> is the end of a function whose last statement was an \<^verbatim>\<open>await\<close>, and
  \<open>Raise\<close> is an \<^verbatim>\<open>await\<close> of a promise that was rejected.

  The functions of the reconciliation carry the promise of the \<^verbatim>\<open>navigate\<close> invocation
  they work for: \<^verbatim>\<open>replaceRouteNodes\<close> is a closure of that invocation, over its
  \<^verbatim>\<open>componentChain\<close>. It is used to tell in the log who did what, and for nothing else.

  \<open>Caller\<close> is the code outside the router that navigates: it does
  \<^verbatim>\<open>await router.navigate(route)\<close> for each of the routes in turn.

  Modelled from the spec: \<^verbatim>\<open>stopAnimations\<close> and \<^verbatim>\<open>animateTo\<close> of \<^verbatim>\<open>animate.js\<close>, which is not
  among the sources. Here the promise of either is resolved when the call returns: an
  animation of no length. A real one is resolved later, and leaves more room for other
  invocations in between.
\<close>

datatype pc =
    Caller "string list"
  | Raise string
  | Finish
  | BeforeNavigate
  | AfterNavigate
  | Navigate string
  | Navigate_86 string
  | Navigate_103 string InternalRoute promise "node list"
  | Navigate_122 promise
  | Navigate_155 string promise "node list"
  | Navigate_158 string promise
  | Navigate_160 string promise
  | ReplaceRouteNodes promise "node list" nat nat
  | ReplaceRouteNodes_133 promise "node list" nat nat "nat list"
  | ReplaceRouteNodes_146 promise "node list" nat ElementAnimation
  | ReplaceRouteNodes_149 promise "node list" nat
  | ReversedRouteNodeRemoval promise nat bool
  | ReversedRouteNodeRemoval_240 promise nat nat bool
  | RemoveRouteElement promise nat
  | RemoveRouteElement_230 promise nat ElementAnimation
  | RemoveRouteElement_233 promise nat
  | StopAnimationsCall promise nat
  | AnimateToCall promise nat ElementAnimation

text \<open>
  An invocation on the call stack is running, or it has called an \<^verbatim>\<open>async\<close> function
  under \<^verbatim>\<open>await\<close> and gets control back, with the promise of that call, as soon as the
  callee returns or reaches an \<^verbatim>\<open>await\<close> of its own.
\<close>

datatype frame = Running pc | Awaiting promise pc

text \<open>
  How a stretch of synchronous code ends: the function returns a value or throws; it
  awaits something that is not a pending promise, or a promise; or it calls an \<^verbatim>\<open>async\<close>
  function, under \<^verbatim>\<open>await\<close> or not. The last \<open>pc\<close> is where the invocation goes on.
\<close>

datatype outcome =
    Returns "string option"
  | Throws string
  | AwaitsValue pc
  | AwaitsPromise promise pc
  | AwaitsCall pc pc
  | Calls pc pc

text \<open>
  The router and the document, the log of what was done to the document and on whose
  behalf, and the promises: how each settled promise has settled, the reactions
  registered on pending ones (the promise awaited, then the invocation to resume and
  where), the queue of microtasks, and the stack of the calls that are running now.
\<close>

record machine =
  document :: document
  domLog :: "(promise \<times> event) list"
  outletOf :: nat
  routesOf :: "InternalRoute list"
  historyOf :: "string list"
  redirections :: nat
  updateCompleteOf :: promise
  newIdent :: nat
  settledAs :: "(promise \<times> settled) list"
  reactions :: "(promise \<times> promise \<times> pc) list"
  microtasks :: "(promise \<times> pc) list"
  callStack :: "(promise \<times> frame) list"
  newPromise :: promise

text \<open>
  Settling a promise puts the reactions registered on it at the end of the microtask
  queue, in the order in which they were registered. Awaiting a promise that is settled
  puts the continuation at the end of the queue at once; awaiting a pending one
  registers it. An invocation that awaited a rejected promise throws when it is resumed.
\<close>

definition reactionJob :: "settled \<Rightarrow> promise \<times> promise \<times> pc \<Rightarrow> promise \<times> pc" where
  "reactionJob v r = (case v of Rejected e \<Rightarrow> (fst (snd r), Raise e) | _ \<Rightarrow> snd r)"

definition settle :: "promise \<Rightarrow> settled \<Rightarrow> machine \<Rightarrow> machine" where
  "settle p v m = m
     \<lparr>settledAs := settledAs m @ [(p, v)],
      microtasks := microtasks m @ map (reactionJob v) (filter (\<lambda>r. fst r = p) (reactions m)),
      reactions := filter (\<lambda>r. fst r \<noteq> p) (reactions m)\<rparr>"

definition awaitPromise :: "promise \<Rightarrow> promise \<Rightarrow> pc \<Rightarrow> machine \<Rightarrow> machine" where
  "awaitPromise self p k m =
     (case map_of (settledAs m) p of
        Some v \<Rightarrow> m\<lparr>microtasks := microtasks m @ [reactionJob v (p, self, k)]\<rparr>
      | None \<Rightarrow> m\<lparr>reactions := reactions m @ [(p, self, k)]\<rparr>)"

definition logEvent :: "promise \<Rightarrow> event \<Rightarrow> machine \<Rightarrow> machine" where
  "logEvent owner e m = m\<lparr>domLog := domLog m @ [(owner, e)]\<rparr>"

definition removeEl :: "promise \<Rightarrow> nat \<Rightarrow> machine \<Rightarrow> machine" where
  "removeEl owner el m = logEvent owner (Remove el) (m\<lparr>document := removeNode el (document m)\<rparr>)"

text \<open>
  \<^verbatim>\<open>navigate\<close> from the head of the loop that builds \<^verbatim>\<open>componentChain\<close>: the next round,
  with its \<^verbatim>\<open>await futureRoute.action[i]?.()\<close> (an action is taken to be done when it
  returns), or, after the last round, the redirect check and
  \<^verbatim>\<open>await this.beforeNavigate()\<close>.
\<close>

definition navigateLoop ::
  "string \<Rightarrow> InternalRoute \<Rightarrow> promise \<Rightarrow> node list \<Rightarrow> machine \<Rightarrow> outcome \<times> machine" where
  "navigateLoop route futureRoute resolver componentChain m =
     (if length componentChain < length (InternalRoute.component futureRoute)
      then (AwaitsValue (Navigate_103 route futureRoute resolver componentChain), m)
      else case atLast (InternalRoute.redirect futureRoute) of
             Some whereToRedirect \<Rightarrow>
               if redirections m > MAX_REDIRECTIONS
               then (Throws ''Circular redirections detected.'', m)
               else (Calls (Navigate whereToRedirect) (Navigate_122 resolver),
                     m\<lparr>redirections := redirections m + 1\<rparr>)
           | None \<Rightarrow> (AwaitsCall BeforeNavigate (Navigate_155 route resolver componentChain), m))"

text \<open>
  \<^verbatim>\<open>replaceRouteNodes\<close> from the head of the loop over \<^verbatim>\<open>invalidNodes\<close>, of which \<open>invalid\<close>
  are left: the next round, or, after the last, the rest of the function. The list was
  made when the function was entered; \<^verbatim>\<open>parent.firstElementChild\<close> is read when the loop
  is over.
\<close>

definition replaceLoop ::
  "promise \<Rightarrow> node list \<Rightarrow> nat \<Rightarrow> nat \<Rightarrow> nat list \<Rightarrow> machine \<Rightarrow> outcome \<times> machine" where
  "replaceLoop owner componentChain parent depth invalid m =
     (case invalid of
        el # rest \<Rightarrow>
          (AwaitsCall (ReversedRouteNodeRemoval owner el True)
             (ReplaceRouteNodes_133 owner componentChain parent depth rest), m)
      | [] \<Rightarrow>
          let nodeToInsert = componentChain ! depth in
          case firstElementChild (document m) parent of
            Some c \<Rightarrow> (AwaitsCall (ReplaceRouteNodes owner componentChain c (depth + 1)) Finish, m)
          | None \<Rightarrow>
              let m1 = logEvent owner (InsertAfterBegin parent (ident nodeToInsert))
                         (m\<lparr>document :=
                              insertAdjacentElement parent (ident nodeToInsert) (document m)\<rparr>)
              in case routeAnimation nodeToInsert of
                   Some anim \<Rightarrow>
                     (AwaitsCall (StopAnimationsCall owner (ident nodeToInsert))
                        (ReplaceRouteNodes_146 owner componentChain depth (anim_show anim)), m1)
                 | None \<Rightarrow>
                     (AwaitsCall (ReplaceRouteNodes owner componentChain (ident nodeToInsert)
                                    (depth + 1)) Finish, m1))"

text \<open>
  The synchronous code of the invocation \<open>self\<close> from a point on, up to its next call,
  \<^verbatim>\<open>await\<close>, return or throw.
\<close>

fun exec :: "(string \<Rightarrow> string \<Rightarrow> bool) \<Rightarrow> promise \<Rightarrow> pc \<Rightarrow> machine \<Rightarrow> outcome \<times> machine" where
  "exec t self (Caller []) m = (Returns None, m)"
| "exec t self (Caller (route # later)) m = (AwaitsCall (Navigate route) (Caller later), m)"
| "exec t self (Raise e) m = (Throws e, m)"
| "exec t self Finish m = (Returns None, m)"
| "exec t self BeforeNavigate m = (Returns None, m)"
| "exec t self AfterNavigate m = (Returns None, m)"
| "exec t self (Navigate route) m = (AwaitsPromise (updateCompleteOf m) (Navigate_86 route), m)"
| "exec t self (Navigate_86 route) m =
     (let resolver = newPromise m;
          m1 = m\<lparr>newPromise := resolver + 1, updateCompleteOf := resolver\<rparr>
      in case getMatchingRoute t (routesOf m1) route of
           None \<Rightarrow> (Returns resolverResult, settle resolver (Fulfilled None) m1)
         | Some futureRoute \<Rightarrow> navigateLoop route futureRoute resolver [] m1)"
| "exec t self (Navigate_103 route futureRoute resolver componentChain) m =
     (let el = createComponent futureRoute (length componentChain) (newIdent m);
          m1 = m\<lparr>newIdent := newIdent m + 1, document := document m @ [entryOf el]\<rparr>
      in navigateLoop route futureRoute resolver (componentChain @ [el]) m1)"
| "exec t self (Navigate_122 resolver) m =
     (Returns resolverResult, settle resolver (Fulfilled None) m)"
| "exec t self (Navigate_155 route resolver componentChain) m =
     (Calls (ReplaceRouteNodes self componentChain (outletOf m) 0) (Navigate_158 route resolver),
      m\<lparr>historyOf := route # historyOf m\<rparr>)"
| "exec t self (Navigate_158 route resolver) m =
     (AwaitsCall AfterNavigate (Navigate_160 route resolver), m)"
| "exec t self (Navigate_160 route resolver) m =
     (Returns (Some route), (settle resolver (Fulfilled None) m)\<lparr>redirections := 0\<rparr>)"
| "exec t self (ReplaceRouteNodes owner componentChain parent depth) m =
     (if length componentChain \<le> depth
      then (AwaitsCall (ReversedRouteNodeRemoval owner parent False) Finish, m)
      else
        let nodeToInsert = componentChain ! depth;
            childElements = childrenOf (document m) parent;
            invalid = filter (\<lambda>el. tagNameOf (document m) el \<noteq> tagName nodeToInsert)
                        childElements
        in replaceLoop owner componentChain parent depth invalid m)"
| "exec t self (ReplaceRouteNodes_133 owner componentChain parent depth rest) m =
     replaceLoop owner componentChain parent depth rest m"
| "exec t self (ReplaceRouteNodes_146 owner componentChain depth anim) m =
     (AwaitsCall (AnimateToCall owner (ident (componentChain ! depth)) anim)
        (ReplaceRouteNodes_149 owner componentChain depth), m)"
| "exec t self (ReplaceRouteNodes_149 owner componentChain depth) m =
     (AwaitsCall (ReplaceRouteNodes owner componentChain (ident (componentChain ! depth))
                    (depth + 1)) Finish, m)"
| "exec t self (ReversedRouteNodeRemoval owner node removeParent) m =
     (case firstChild (document m) node of
        Some child \<Rightarrow>
          (AwaitsCall (ReversedRouteNodeRemoval owner child False)
             (ReversedRouteNodeRemoval_240 owner node child removeParent), m)
      | None \<Rightarrow>
          if removeParent then (AwaitsCall (RemoveRouteElement owner node) Finish, m)
          else (Returns None, m))"
| "exec t self (ReversedRouteNodeRemoval_240 owner node child removeParent) m =
     (AwaitsCall (RemoveRouteElement owner child)
        (ReversedRouteNodeRemoval owner node removeParent), m)"
| "exec t self (RemoveRouteElement owner el) m =
     (case routeAnimationOf (document m) el of
        Some anim \<Rightarrow>
          (AwaitsCall (StopAnimationsCall owner el)
             (RemoveRouteElement_230 owner el (anim_hide anim)), m)
      | None \<Rightarrow> (Returns None, removeEl owner el m))"
| "exec t self (RemoveRouteElement_230 owner el anim) m =
     (AwaitsCall (AnimateToCall owner el anim) (RemoveRouteElement_233 owner el), m)"
| "exec t self (RemoveRouteElement_233 owner el) m = (Returns None, removeEl owner el m)"
| "exec t self (StopAnimationsCall owner el) m =
     (Returns None, logEvent owner (StopAnimations el) m)"
| "exec t self (AnimateToCall owner el anim) m =
     (Returns None, logEvent owner (AnimateTo el anim) m)"

text \<open>
  One step of the machine. With calls on the stack, the topmost goes on: a running one
  runs to the end of its stretch of synchronous code, and then returns (its promise is
  fulfilled), throws (its promise is rejected), leaves the stack at an \<^verbatim>\<open>await\<close>, or
  calls, and the callee runs on top of it with a new promise; an invocation that is
  back from a call made under \<^verbatim>\<open>await\<close> awaits the promise of that call. With an empty
  stack the first microtask of the queue is taken up. With nothing in the queue either,
  nothing is left to do.
\<close>

definition step :: "(string \<Rightarrow> string \<Rightarrow> bool) \<Rightarrow> machine \<Rightarrow> machine" where
  "step t m =
     (case callStack m of
        [] \<Rightarrow> (case microtasks m of
                 [] \<Rightarrow> m
               | (p, k) # later \<Rightarrow> m\<lparr>microtasks := later, callStack := [(p, Running k)]\<rparr>)
      | (self, Awaiting p k) # callers \<Rightarrow> awaitPromise self p k (m\<lparr>callStack := callers\<rparr>)
      | (self, Running k) # callers \<Rightarrow>
          (case exec t self k (m\<lparr>callStack := callers\<rparr>) of
             (Returns v, m1) \<Rightarrow> settle self (Fulfilled v) m1
           | (Throws e, m1) \<Rightarrow> settle self (Rejected e) m1
           | (AwaitsValue k1, m1) \<Rightarrow> m1\<lparr>microtasks := microtasks m1 @ [(self, k1)]\<rparr>
           | (AwaitsPromise p k1, m1) \<Rightarrow> awaitPromise self p k1 m1
           | (AwaitsCall callee k1, m1) \<Rightarrow>
               m1\<lparr>newPromise := newPromise m1 + 1,
                  callStack := (newPromise m1, Running callee)
                               # (self, Awaiting (newPromise m1) k1) # callers\<rparr>
           | (Calls callee k1, m1) \<Rightarrow>
               m1\<lparr>newPromise := newPromise m1 + 1,
                  callStack := (newPromise m1, Running callee)
                               # (self, Running k1) # callers\<rparr>))"

fun run :: "(string \<Rightarrow> string \<Rightarrow> bool) \<Rightarrow> nat \<Rightarrow> machine \<Rightarrow> machine" where
  "run t 0 m = m"
| "run t (Suc n) m = run t n (step t m)"

definition quiescent :: "machine \<Rightarrow> bool" where
  "quiescent m = (callStack m = [] \<and> microtasks m = [])"

text \<open>
  A router with its table, an outlet that holds a tree, and no navigation made yet
  (\<^verbatim>\<open>updateComplete\<close> is the resolved promise 0), with a caller (promise 1) about to run;
  and a machine with nothing left to do, with a new caller about to run.
\<close>

definition boot :: "Route list \<Rightarrow> node \<Rightarrow> nat \<Rightarrow> string list \<Rightarrow> machine" where
  "boot rs out firstIdent script =
     \<lparr>document = documentOf out, domLog = [], outletOf = ident out,
      routesOf = parseRoutes rs [] emptyRoute, historyOf = [], redirections = 0,
      updateCompleteOf = 0, newIdent = firstIdent, settledAs = [(0, Fulfilled None)],
      reactions = [], microtasks = [], callStack = [(1, Running (Caller script))],
      newPromise = 2\<rparr>"


text \<open>
  The example of this section: one route \<^verbatim>\<open>b\<close> with the view \<^verbatim>\<open>b-view\<close>, and an outlet
  under which another view is mounted, three levels deep below its own element; no
  element has an animation. \<open>overlapping n\<close> is the machine after \<open>n\<close> steps of a caller
  that does \<^verbatim>\<open>await router.navigate('b'); await router.navigate('b')\<close>; \<open>finishedFirst\<close>
  is the machine when a caller that navigates once has run and nothing is left to do,
  and \<open>finishedSecond\<close> the machine when a caller that navigates then has run as well.
\<close>

definition mounted4 :: node where
  "mounted4 = Element 0 ''OUTLET'' None
     [Element 1 ''old-view'' None [Element 2 ''x'' None [Element 3 ''y'' None
        [Element 4 ''z'' None []]]]]"




subsection \<open>The machine on the examples above\<close>

text \<open>
  Run until nothing is left to do, the machine does what \<open>navigateRun\<close> and
  \<open>replaceRouteNodes\<close> give: for the redirect from \<^verbatim>\<open>/away\<close> to \<^verbatim>\<open>home\<close> into an empty
  outlet, where the promise of the caller's navigation (2) is fulfilled with nothing and
  the one of the navigation it started (4) with \<^verbatim>\<open>home\<close>; and for the mounted \<^verbatim>\<open>[A,B]\<close>
  against the chain \<^verbatim>\<open>[A,C]\<close>.
\<close>

lemma machine_redirect_example:
  "quiescent (run exactMatch 200
     (boot [Route ''home'' None (Some ''home-view'') None None None [],
            Route ''away'' None None None None (Some ''home'') []]
        (Element 0 ''OUTLET'' None []) 1 [''/away'']))
   \<and> domLog (run exactMatch 200
     (boot [Route ''home'' None (Some ''home-view'') None None None [],
            Route ''away'' None None None None (Some ''home'') []]
        (Element 0 ''OUTLET'' None []) 1 [''/away''])) = [(4, InsertAfterBegin 0 2)]
   \<and> map_of (settledAs (run exactMatch 200
     (boot [Route ''home'' None (Some ''home-view'') None None None [],
            Route ''away'' None None None None (Some ''home'') []]
        (Element 0 ''OUTLET'' None []) 1 [''/away'']))) 2 = Some (Fulfilled None)
   \<and> map_of (settledAs (run exactMatch 200
     (boot [Route ''home'' None (Some ''home-view'') None None None [],
            Route ''away'' None None None None (Some ''home'') []]
        (Element 0 ''OUTLET'' None []) 1 [''/away'']))) 4 = Some (Fulfilled (Some ''home''))
   \<and> redirections (run exactMatch 200
     (boot [Route ''home'' None (Some ''home-view'') None None None [],
            Route ''away'' None None None None (Some ''home'') []]
        (Element 0 ''OUTLET'' None []) 1 [''/away''])) = 0
   \<and> historyOf (run exactMatch 200
     (boot [Route ''home'' None (Some ''home-view'') None None None [],
            Route ''away'' None None None None (Some ''home'') []]
        (Element 0 ''OUTLET'' None []) 1 [''/away''])) = [''home'']"
  by code_simp

lemma machine_reconciliation_example:
  "quiescent (run exactMatch 300
     (boot [Route ''a'' None (Some ''A'') None None None
              [Route ''c'' None (Some ''C'') None
                 (Some (RouteAnimation (ElementAnimation ''c-in'' ''300'')
                                       (ElementAnimation ''c-out'' ''300''))) None []]]
        (Element 0 ''OUTLET'' None
          [Element 1 ''A'' None
            [Element 2 ''B'' (Some (RouteAnimation (ElementAnimation ''b-in'' ''300'')
                                                  (ElementAnimation ''b-out'' ''300'')))
              [CharacterData 7]]]) 3 [''a/c'']))
   \<and> map snd (domLog (run exactMatch 300
     (boot [Route ''a'' None (Some ''A'') None None None
              [Route ''c'' None (Some ''C'') None
                 (Some (RouteAnimation (ElementAnimation ''c-in'' ''300'')
                                       (ElementAnimation ''c-out'' ''300''))) None []]]
        (Element 0 ''OUTLET'' None
          [Element 1 ''A'' None
            [Element 2 ''B'' (Some (RouteAnimation (ElementAnimation ''b-in'' ''300'')
                                                  (ElementAnimation ''b-out'' ''300'')))
              [CharacterData 7]]]) 3 [''a/c''])))
     = [Remove 7, StopAnimations 2, AnimateTo 2 (ElementAnimation ''b-out'' ''300''), Remove 2,
        InsertAfterBegin 1 4, StopAnimations 4, AnimateTo 4 (ElementAnimation ''c-in'' ''300'')]"
  by code_simp

subsection \<open>Invocations that find their chain mounted\<close>






























subsection \<open>Navigating again to the same path\<close>





lemma finishedFirst_as_navigateRun:
  "navigateRun exactMatch ''b''
     ((idleRouter [Route ''b'' None (Some ''b-view'') None None None []])
        \<lparr>outlet := mounted4, nextIdent := 5\<rparr>)
   = ([Fulfilled (Some ''b'')],
      (idleRouter [Route ''b'' None (Some ''b-view'') None None None []])
        \<lparr>outlet := Element 0 ''OUTLET'' None [Element 5 ''b-view'' None []], nextIdent := 6,
         history := [''b''],
         domEvents := [Remove 4, Remove 3, Remove 2, Remove 1, InsertAfterBegin 0 5]\<rparr>)"
  by code_simp




end
